theory Spec2Isabelle
  imports Complex_Main
begin

section \<open>The detector program (detector.py)\<close>

text \<open>
  The program reads camera frames in a loop, counts the faces in each frame, and on a
  change of state to "human" appends a row to a CSV report and, when the cooldown allows,
  starts a thread that speaks a message and then plays an alarm sound.

  What the environment returns is an input of the model: the number of faces found in a
  frame, the readings of the clocks, the key pressed, the outcome of the calls of the
  speech engine, the files present. \<open>time.time()\<close> is a float in Python and a
  \<open>real\<close> here. The drawing calls of OpenCV (\<open>cvtColor\<close>, \<open>rectangle\<close>,
  \<open>imshow\<close>) and the release of the camera change nothing that is modelled and are
  left out. Opening the report for writing is taken to succeed.
\<close>

subsection \<open>Configuration\<close>

type_synonym path = string

definition CAMERA_INDEX :: nat where
  "CAMERA_INDEX = 0"

definition ALERT_SOUND :: path where
  "ALERT_SOUND = ''alert.wav''"

definition REPORT_CSV :: path where
  "REPORT_CSV = ''report.csv''"

definition ALERT_COOLDOWN :: real where
  "ALERT_COOLDOWN = 5"

definition HUMAN_ALERT_DURATION :: real where
  "HUMAN_ALERT_DURATION = 30"

definition VOICE_MESSAGE :: string where
  "VOICE_MESSAGE = ''Warning! Intruder detected!''"

subsection \<open>Data\<close>

text \<open>
  A CSV file is the list of the rows written to it; a row is the list of values handed to
  \<open>writerow\<close>, a string or a number each.
\<close>

datatype cell = S string | N nat

type_synonym row = "cell list"

type_synonym files = "path \<rightharpoonup> row list"

text \<open>A loaded \<open>WaveObject\<close>, with its audio data.\<close>

datatype wave_object = WaveObject "nat list"

text \<open>
  A sound file on disk: \<open>Inr\<close> the object \<open>WaveObject.from_wave_file\<close> returns,
  \<open>Inl\<close> the exception it raises.
\<close>

type_synonym sounds = "path \<rightharpoonup> string + wave_object"

text \<open>The lines the program prints, by kind, with the values formatted into them.\<close>

datatype message =
    Warn_sound_not_found path
  | Warn_sound_load path string
  | Warn_tts string
  | Error_cascade
  | Error_camera nat
  | Started
  | Capture_failed
  | Human_detected string nat
  | No_face string
  | Quitting

text \<open>
  The effects of the main thread, in program order: a printed line, a row appended to a
  file, a thread started on \<open>speak_message_then_alarm\<close> with its four arguments, and
  the assignment to \<open>last_alert_time\<close>.
\<close>

datatype effect =
    Stdout message
  | Csv_row path row
  | Thread_start string "wave_object option" real int
  | Set_last_alert_time real

text \<open>
  The calls made by one run of \<open>speak_message_then_alarm\<close>, in program order.
  \<open>Play_wave\<close> is the call of \<open>play_wave\<close> with its two arguments, \<open>Play\<close>
  one \<open>wave.play()\<close>, \<open>Sleep\<close> one \<open>time.sleep\<close>.
\<close>

datatype call =
    Tts_init
  | Say string
  | RunAndWait
  | Print message
  | Play_wave "wave_object option" real
  | Play wave_object
  | Sleep real

text \<open>
  One pass of the loop of \<open>main\<close> reads these values from the environment: the number
  of faces found (line 110), \<open>time.time()\<close> (line 112), the formatted
  \<open>datetime.now()\<close> inside \<open>log_event\<close> (line 68) and inside the \<open>print\<close>
  (lines 118 and 130), and whether the key read by \<open>waitKey\<close> is \<open>q\<close> (line 140).
\<close>

record frame =
  fr_face_count :: nat
  fr_now :: real
  fr_log_ts :: string
  fr_print_ts :: string
  fr_key_q :: bool

text \<open>The variables of \<open>main\<close>, the files, and the effects so far.\<close>

record loop_state =
  prev_state :: "string option"
  last_alert_time :: real
  files :: files
  trace :: "effect list"

text \<open>
  The outcome of the calls of the speech engine in one thread: \<open>None\<close> when the call
  returns, \<open>Some e\<close> when it raises the exception \<open>e\<close>. \<open>say_fails\<close> lists the
  outcomes of the successive \<open>engine.say\<close> calls; a call beyond the list returns.
\<close>

record tts =
  init_fails :: "string option"
  say_fails :: "string option list"
  run_fails :: "string option"

text \<open>What \<open>main\<close> finds when it starts.\<close>

record world =
  w_files :: files
  w_sounds :: sounds
  w_cascade_ok :: bool
  w_camera_ok :: bool
  w_frames :: "frame list"

subsection \<open>The report\<close>

definition header :: row where
  "header = [S ''timestamp'', S ''detection'', S ''face_count'', S ''notes'']"

definition ensure_report_exists :: "path \<Rightarrow> files \<Rightarrow> files" where
  "ensure_report_exists p fs = (if fs p = None then fs(p \<mapsto> [header]) else fs)"

text \<open>
  \<open>open(path, "a")\<close> creates a missing file. \<open>ts\<close> is the clock reading that
  \<open>log_event\<close> takes itself.
\<close>

definition rows_of :: "files \<Rightarrow> path \<Rightarrow> row list" where
  "rows_of fs p = (case fs p of None \<Rightarrow> [] | Some rs \<Rightarrow> rs)"

definition log_event :: "string \<Rightarrow> path \<Rightarrow> string \<Rightarrow> nat \<Rightarrow> string \<Rightarrow> files \<Rightarrow> files" where
  "log_event ts p detection n notes fs = fs(p \<mapsto> rows_of fs p @ [[S ts, S detection, N n, S notes]])"

subsection \<open>The alarm sound\<close>

definition load_wave :: "sounds \<Rightarrow> path \<Rightarrow> wave_object option \<times> message list" where
  "load_wave sfs p =
     (case sfs p of
        None \<Rightarrow> (None, [Warn_sound_not_found p])
      | Some (Inl e) \<Rightarrow> (None, [Warn_sound_load p e])
      | Some (Inr w) \<Rightarrow> (Some w, []))"

text \<open>
  The loop of \<open>play_wave\<close>. \<open>clock\<close> lists the values that the coming calls of
  \<open>time.time()\<close> return in this thread. The result is the calls made and whether the
  loop was left: it is cut, with \<open>False\<close>, where the list of readings ends.
  \<open>not end_time\<close> holds for \<open>None\<close> and for the float \<open>0.0\<close>; \<open>not wave\<close>
  holds for \<open>None\<close> only, a \<open>WaveObject\<close> being true. \<open>wave.play()\<close> starts
  the playback and returns.
\<close>

fun play_loop :: "wave_object \<Rightarrow> real option \<Rightarrow> real list \<Rightarrow> call list \<times> bool" where
  "play_loop w None clock = ([Play w], True)"
| "play_loop w (Some e) [] = ([Play w], e = 0)"
| "play_loop w (Some e) (t # clock) =
     (if e = 0 then ([Play w], True)
      else if t \<ge> e then ([Play w], True)
      else (case play_loop w (Some e) clock of (cs, fin) \<Rightarrow> (Play w # Sleep 1 # cs, fin)))"

definition play_wave :: "wave_object option \<Rightarrow> real \<Rightarrow> real list \<Rightarrow> call list \<times> bool" where
  "play_wave wave repeat_for clock =
     (case wave of
        None \<Rightarrow> ([Play_wave wave repeat_for], True)
      | Some w \<Rightarrow>
          (if repeat_for > 0 then
             (case clock of
                [] \<Rightarrow> ([Play_wave wave repeat_for], False)
              | t0 # clock' \<Rightarrow>
                  (case play_loop w (Some (t0 + repeat_for)) clock' of
                     (cs, fin) \<Rightarrow> (Play_wave wave repeat_for # cs, fin)))
           else (case play_loop w None clock of
                   (cs, fin) \<Rightarrow> (Play_wave wave repeat_for # cs, fin))))"

subsection \<open>The alert thread\<close>

definition say_result :: "tts \<Rightarrow> nat \<Rightarrow> string option" where
  "say_result env k = (if k < length (say_fails env) then say_fails env ! k else None)"

text \<open>
  \<open>for _ in range(repeat): engine.say(message)\<close>, from the \<open>k\<close>-th call on, \<open>n\<close>
  calls to go: the calls made and the exception that ended the loop, if any.
\<close>

fun say_loop :: "tts \<Rightarrow> string \<Rightarrow> nat \<Rightarrow> nat \<Rightarrow> call list \<times> string option" where
  "say_loop env m k 0 = ([], None)"
| "say_loop env m k (Suc n) =
     (case say_result env k of
        Some e \<Rightarrow> ([Say m], Some e)
      | None \<Rightarrow> (case say_loop env m (Suc k) n of (cs, r) \<Rightarrow> (Say m # cs, r)))"

text \<open>The body of the \<open>try\<close>: the calls made and the exception raised, if any.\<close>

definition try_speak :: "tts \<Rightarrow> string \<Rightarrow> int \<Rightarrow> call list \<times> string option" where
  "try_speak env m repeat =
     (case init_fails env of
        Some e \<Rightarrow> ([Tts_init], Some e)
      | None \<Rightarrow>
          (case say_loop env m 0 (nat repeat) of
             (cs, Some e) \<Rightarrow> (Tts_init # cs, Some e)
           | (cs, None) \<Rightarrow> (Tts_init # cs @ [RunAndWait], run_fails env)))"

definition speak_message_then_alarm ::
  "tts \<Rightarrow> real list \<Rightarrow> string \<Rightarrow> wave_object option \<Rightarrow> real \<Rightarrow> int \<Rightarrow> call list \<times> bool" where
  "speak_message_then_alarm env clock m wave duration repeat =
     (case try_speak env m repeat of
        (cs, r) \<Rightarrow>
          (let handler = (case r of None \<Rightarrow> [] | Some e \<Rightarrow> [Print (Warn_tts e)])
           in case play_wave wave duration clock of
                (ps, fin) \<Rightarrow> (cs @ handler @ ps, fin)))"

subsection \<open>The main loop\<close>

definition emit :: "effect \<Rightarrow> loop_state \<Rightarrow> loop_state" where
  "emit e s = s\<lparr>trace := trace s @ [e]\<rparr>"

text \<open>Lines 110 to 132: one pass of the loop, up to the drawing.\<close>

definition main_loop_body :: "wave_object option \<Rightarrow> frame \<Rightarrow> loop_state \<Rightarrow> loop_state" where
  "main_loop_body alert_wave fr s =
     (let face_count = fr_face_count fr;
          state = (if face_count > 0 then ''human'' else ''no_face'');
          now = fr_now fr
      in if Some state \<noteq> prev_state s then
           (if state = ''human'' then
              (let notes = ''Faces detected'';
                   s1 = emit (Csv_row REPORT_CSV [S (fr_log_ts fr), S state, N face_count, S notes])
                          (s\<lparr>files := log_event (fr_log_ts fr) REPORT_CSV state face_count notes (files s)\<rparr>);
                   s2 = emit (Stdout (Human_detected (fr_print_ts fr) face_count)) s1;
                   s3 = (if now - last_alert_time s2 \<ge> ALERT_COOLDOWN then
                           (emit (Set_last_alert_time now)
                              (emit (Thread_start VOICE_MESSAGE alert_wave HUMAN_ALERT_DURATION 2) s2))
                             \<lparr>last_alert_time := now\<rparr>
                         else s2)
               in s3\<lparr>prev_state := Some state\<rparr>)
            else (emit (Stdout (No_face (fr_print_ts fr))) s)\<lparr>prev_state := Some state\<rparr>)
         else s)"

text \<open>
  The loop: it ends when the camera gives no frame (the list is used up) or when \<open>q\<close>
  is pressed after a pass.
\<close>

fun main_loop :: "wave_object option \<Rightarrow> frame list \<Rightarrow> loop_state \<Rightarrow> loop_state" where
  "main_loop alert_wave [] s = emit (Stdout Capture_failed) s"
| "main_loop alert_wave (fr # frs) s =
     (let s' = main_loop_body alert_wave fr s
      in if fr_key_q fr then emit (Stdout Quitting) s' else main_loop alert_wave frs s')"

definition init_state :: "files \<Rightarrow> loop_state" where
  "init_state fs = \<lparr>prev_state = None, last_alert_time = 0, files = fs, trace = []\<rparr>"

definition main :: "world \<Rightarrow> loop_state" where
  "main w =
     (let s0 = init_state (ensure_report_exists REPORT_CSV (w_files w))
      in if \<not> w_cascade_ok w then emit (Stdout Error_cascade) s0
         else (case load_wave (w_sounds w) ALERT_SOUND of
                 (alert_wave, warns) \<Rightarrow>
                   (let s1 = s0\<lparr>trace := map Stdout warns\<rparr>
                    in if \<not> w_camera_ok w then emit (Stdout (Error_camera CAMERA_INDEX)) s1
                       else main_loop alert_wave (w_frames w) (emit (Stdout Started) s1))))"

subsection \<open>The state tracker of the specification\<close>

text \<open>
  The specification describes the change of state as a component of its own: it holds a
  presence state, \<open>Unknown\<close> at first, and returns a transition when a sample changes it.
  These definitions follow the specification's words; the theorems compare them with
  the loop above.
\<close>

datatype presence = Unknown | Absent | Present

record transition =
  t_from :: presence
  t_to :: presence
  t_at :: real
  t_count :: nat

definition spec_ingest :: "presence \<Rightarrow> frame \<Rightarrow> transition option \<times> presence" where
  "spec_ingest current fr =
     (let to = (if fr_face_count fr > 0 then Present else Absent)
      in if to = current then (None, current)
         else (Some \<lparr>t_from = current, t_to = to, t_at = fr_now fr, t_count = fr_face_count fr\<rparr>, to))"

text \<open>The presence state that a value of \<open>prev_state\<close> stands for.\<close>

definition presence_of :: "string option \<Rightarrow> presence" where
  "presence_of p =
     (case p of None \<Rightarrow> Unknown | Some st \<Rightarrow> if st = ''human'' then Present else Absent)"

definition valid_prev :: "string option \<Rightarrow> bool" where
  "valid_prev p = (p = None \<or> p = Some ''human'' \<or> p = Some ''no_face'')"

text \<open>The specification's tracker over a sequence of samples: the transitions it returns.\<close>

fun spec_run :: "presence \<Rightarrow> frame list \<Rightarrow> transition list" where
  "spec_run current [] = []"
| "spec_run current (fr # frs) =
     (case spec_ingest current fr of
        (None, c) \<Rightarrow> spec_run c frs
      | (Some tr, c) \<Rightarrow> tr # spec_run c frs)"

subsection \<open>The alert orchestrator of the specification\<close>

text \<open>
  The specification's orchestrator holds the time at which the last episode started, or
  nothing when it has never fired; then the elapsed time counts as infinite. On a
  transition it does nothing unless the transition is into Present; it does nothing when
  the elapsed time is below the cooldown; otherwise it sets the held time to the time of
  the transition and starts an episode. The result is whether an episode starts, and the
  time held afterwards. These definitions follow the specification's words.
\<close>

definition spec_on_transition :: "real option \<Rightarrow> transition \<Rightarrow> bool \<times> real option" where
  "spec_on_transition last_started tr =
     (if t_to tr \<noteq> Present then (False, last_started)
      else if (case last_started of None \<Rightarrow> False | Some l \<Rightarrow> t_at tr - l < ALERT_COOLDOWN)
        then (False, last_started)
      else (True, Some (t_at tr)))"

text \<open>The specification's tracker and orchestrator on one sample, and on a sequence.\<close>

definition spec_step :: "presence \<times> real option \<Rightarrow> frame \<Rightarrow> bool \<times> presence \<times> real option" where
  "spec_step st fr =
     (case spec_ingest (fst st) fr of
        (None, c) \<Rightarrow> (False, c, snd st)
      | (Some tr, c) \<Rightarrow>
          (case spec_on_transition (snd st) tr of (started, l) \<Rightarrow> (started, c, l)))"

fun spec_orchestrate :: "presence \<times> real option \<Rightarrow> frame list \<Rightarrow> presence \<times> real option" where
  "spec_orchestrate st [] = st"
| "spec_orchestrate st (fr # frs) = spec_orchestrate (snd (spec_step st fr)) frs"

text \<open>
  How \<open>last_alert_time\<close> holds the orchestrator's time: 0 while no episode has started.
\<close>

definition last_of :: "real option \<Rightarrow> real" where
  "last_of last_started = (case last_started of None \<Rightarrow> 0 | Some l \<Rightarrow> l)"

subsection \<open>Observing a run\<close>

text \<open>Line 111: the state computed for a frame.\<close>

definition state_of :: "frame \<Rightarrow> string" where
  "state_of fr = (if fr_face_count fr > 0 then ''human'' else ''no_face'')"

text \<open>The effects that one pass of the loop adds to the trace.\<close>

definition new_effects :: "wave_object option \<Rightarrow> frame \<Rightarrow> loop_state \<Rightarrow> effect list" where
  "new_effects alert_wave fr s = drop (length (trace s)) (trace (main_loop_body alert_wave fr s))"

fun is_thread_start :: "effect \<Rightarrow> bool" where
  "is_thread_start (Thread_start m w d r) = True"
| "is_thread_start e = False"

fun is_set_last_alert_time :: "effect \<Rightarrow> bool" where
  "is_set_last_alert_time (Set_last_alert_time t) = True"
| "is_set_last_alert_time e = False"

text \<open>A pass starts an alert episode when it starts a thread.\<close>

definition starts_episode :: "wave_object option \<Rightarrow> frame \<Rightarrow> loop_state \<Rightarrow> bool" where
  "starts_episode alert_wave fr s = list_ex is_thread_start (new_effects alert_wave fr s)"

text \<open>\<open>precedes P Q xs\<close>: some element with \<open>P\<close> stands before some element with \<open>Q\<close>.\<close>

fun precedes :: "('a \<Rightarrow> bool) \<Rightarrow> ('a \<Rightarrow> bool) \<Rightarrow> 'a list \<Rightarrow> bool" where
  "precedes P Q [] = False"
| "precedes P Q (x # xs) = ((P x \<and> list_ex Q xs) \<or> precedes P Q xs)"

text \<open>The passes of the loop over the frames \<open>frs\<close>, one after the other.\<close>

fun run_passes :: "wave_object option \<Rightarrow> frame list \<Rightarrow> loop_state \<Rightarrow> loop_state" where
  "run_passes alert_wave [] s = s"
| "run_passes alert_wave (fr # frs) s = run_passes alert_wave frs (main_loop_body alert_wave fr s)"

text \<open>The frames that the loop handles: up to the first one with \<open>q\<close> pressed.\<close>

fun processed :: "frame list \<Rightarrow> frame list" where
  "processed [] = []"
| "processed (fr # frs) = fr # (if fr_key_q fr then [] else processed frs)"


fun is_play :: "call \<Rightarrow> bool" where
  "is_play (Play w) = True"
| "is_play c = False"

fun is_play_wave :: "call \<Rightarrow> bool" where
  "is_play_wave (Play_wave w d) = True"
| "is_play_wave c = False"

text \<open>
  Scenario A of the specification: five frames with 0, 0, 2, 2 and 0 faces, one second
  apart, no key pressed.
\<close>

definition scenario_A :: "frame list" where
  "scenario_A =
     [\<lparr>fr_face_count = 0, fr_now = 100, fr_log_ts = ''t1'', fr_print_ts = ''t1'', fr_key_q = False\<rparr>,
      \<lparr>fr_face_count = 0, fr_now = 101, fr_log_ts = ''t2'', fr_print_ts = ''t2'', fr_key_q = False\<rparr>,
      \<lparr>fr_face_count = 2, fr_now = 102, fr_log_ts = ''t3'', fr_print_ts = ''t3'', fr_key_q = False\<rparr>,
      \<lparr>fr_face_count = 2, fr_now = 103, fr_log_ts = ''t4'', fr_print_ts = ''t4'', fr_key_q = False\<rparr>,
      \<lparr>fr_face_count = 0, fr_now = 104, fr_log_ts = ''t5'', fr_print_ts = ''t5'', fr_key_q = False\<rparr>]"

text \<open>
  A start with no report and no sound file, a working classifier and camera, and the
  frames of scenario A.
\<close>

definition world_A :: world where
  "world_A = \<lparr>w_files = Map.empty, w_sounds = Map.empty, w_cascade_ok = True,
               w_camera_ok = True, w_frames = scenario_A\<rparr>"

text \<open>
  The same start with a report that exists and is empty.
\<close>

definition world_B :: world where
  "world_B = \<lparr>w_files = [REPORT_CSV \<mapsto> []], w_sounds = Map.empty, w_cascade_ok = True,
               w_camera_ok = True, w_frames = scenario_A\<rparr>"

text \<open>
  The columns that the specification names for the report: \<open>timestamp\<close>,
  \<open>detection_state\<close>, \<open>subject_count\<close>, \<open>notes\<close>. The definition follows the
  specification's words.
\<close>

definition spec_header :: row where
  "spec_header = [S ''timestamp'', S ''detection_state'', S ''subject_count'', S ''notes'']"

section \<open>Properties\<close>

subsection \<open>Basic facts\<close>

lemma emit_simps:
  "prev_state (emit e s) = prev_state s"
  "last_alert_time (emit e s) = last_alert_time s"
  "files (emit e s) = files s"
  "trace (emit e s) = trace s @ [e]"
  by (simp_all add: emit_def)

lemma body_prev_state:
  "prev_state (main_loop_body w fr s) =
     (if Some (state_of fr) \<noteq> prev_state s then Some (state_of fr) else prev_state s)"
  by (simp add: main_loop_body_def Let_def emit_simps state_of_def)

lemma body_valid_prev:
  "valid_prev (prev_state s) \<Longrightarrow> valid_prev (prev_state (main_loop_body w fr s))"
  by (auto simp: body_prev_state valid_prev_def state_of_def)

lemma body_unchanged: "Some (state_of fr) = prev_state s \<Longrightarrow> main_loop_body w fr s = s"
  by (simp add: main_loop_body_def Let_def state_of_def)

lemma body_eq_iff: "main_loop_body w fr s = s \<longleftrightarrow> Some (state_of fr) = prev_state s"
proof
  assume eq: "main_loop_body w fr s = s"
  show "Some (state_of fr) = prev_state s"
  proof (rule ccontr)
    assume ne: "Some (state_of fr) \<noteq> prev_state s"
    then have "prev_state (main_loop_body w fr s) = Some (state_of fr)"
      by (simp add: body_prev_state)
    with eq ne show False by simp
  qed
qed (rule body_unchanged)

lemma body_trace_human:
  "Some (state_of fr) \<noteq> prev_state s \<Longrightarrow> fr_face_count fr > 0 \<Longrightarrow>
   take 2 (new_effects w fr s) =
     [Csv_row REPORT_CSV [S (fr_log_ts fr), S ''human'', N (fr_face_count fr), S ''Faces detected''],
      Stdout (Human_detected (fr_print_ts fr) (fr_face_count fr))]"
  by (simp add: new_effects_def main_loop_body_def Let_def emit_simps state_of_def)

lemma body_trace_no_face:
  "Some (state_of fr) \<noteq> prev_state s \<Longrightarrow> fr_face_count fr = 0 \<Longrightarrow>
   new_effects w fr s = [Stdout (No_face (fr_print_ts fr))]"
  by (simp add: new_effects_def main_loop_body_def Let_def emit_simps state_of_def)

lemma spec_ingest_fst:
  "valid_prev p \<Longrightarrow>
   fst (spec_ingest (presence_of p) fr) =
     (if Some (state_of fr) = p then None
      else Some \<lparr>t_from = presence_of p, t_to = (if fr_face_count fr > 0 then Present else Absent),
                  t_at = fr_now fr, t_count = fr_face_count fr\<rparr>)"
  unfolding valid_prev_def
  by (elim disjE) (simp_all add: spec_ingest_def presence_of_def state_of_def)

lemma spec_ingest_snd:
  "valid_prev p \<Longrightarrow>
   snd (spec_ingest (presence_of p) fr) = (if fr_face_count fr > 0 then Present else Absent)"
  unfolding valid_prev_def
  by (elim disjE) (simp_all add: spec_ingest_def presence_of_def)

lemma body_presence:
  "valid_prev (prev_state s) \<Longrightarrow>
   presence_of (prev_state (main_loop_body w fr s)) = (if fr_face_count fr > 0 then Present else Absent)"
  unfolding valid_prev_def
  by (elim disjE) (simp_all add: body_prev_state presence_of_def state_of_def)

subsection \<open>The state tracker\<close>

text \<open>
  Claim C1. One pass of the loop is the specification's tracker: with \<open>prev_state\<close> read
  as the held presence state (\<open>None\<close>, its value at the start, as Unknown), the state
  after the pass is the
  tracker's, which is Present exactly for a positive face count. The tracker returns no
  transition exactly when the pass changes nothing at all. When it returns one, its
  \<open>from\<close> is the state held before, its \<open>to\<close> the state held after, its count the
  frame's face count, and the pass reports it: into Present by a report row and a printed
  line that both carry the count, into Absent by a printed line.
\<close>

theorem state_tracker_refines:
  assumes "valid_prev (prev_state s)"
  shows "valid_prev (prev_state (init_state fs))
     \<and> presence_of (prev_state (init_state fs)) = Unknown
     \<and> presence_of (prev_state (main_loop_body w fr s)) = snd (spec_ingest (presence_of (prev_state s)) fr)
     \<and> valid_prev (prev_state (main_loop_body w fr s))
     \<and> (fst (spec_ingest (presence_of (prev_state s)) fr) = None \<longleftrightarrow> main_loop_body w fr s = s)
     \<and> (\<forall>tr. fst (spec_ingest (presence_of (prev_state s)) fr) = Some tr \<longrightarrow>
           t_from tr = presence_of (prev_state s)
         \<and> t_to tr = presence_of (prev_state (main_loop_body w fr s))
         \<and> (t_to tr = Present \<longleftrightarrow> fr_face_count fr > 0)
         \<and> (t_to tr = Absent \<longleftrightarrow> fr_face_count fr = 0)
         \<and> t_count tr = fr_face_count fr
         \<and> (t_to tr = Present \<longrightarrow>
               take 2 (new_effects w fr s) =
                 [Csv_row REPORT_CSV [S (fr_log_ts fr), S ''human'', N (t_count tr), S ''Faces detected''],
                  Stdout (Human_detected (fr_print_ts fr) (t_count tr))])
         \<and> (t_to tr = Absent \<longrightarrow> new_effects w fr s = [Stdout (No_face (fr_print_ts fr))]))"
proof -
  note v = assms
  have i: "valid_prev (prev_state (init_state fs)) \<and> presence_of (prev_state (init_state fs)) = Unknown"
    by (simp add: init_state_def valid_prev_def presence_of_def)
  have a: "presence_of (prev_state (main_loop_body w fr s)) = snd (spec_ingest (presence_of (prev_state s)) fr)"
    by (simp add: body_presence [OF v] spec_ingest_snd [OF v])
  have b: "valid_prev (prev_state (main_loop_body w fr s))"
    by (rule body_valid_prev [OF v])
  have c: "fst (spec_ingest (presence_of (prev_state s)) fr) = None \<longleftrightarrow> main_loop_body w fr s = s"
    by (simp add: spec_ingest_fst [OF v] body_eq_iff)
  have d: "\<forall>tr. fst (spec_ingest (presence_of (prev_state s)) fr) = Some tr \<longrightarrow>
           t_from tr = presence_of (prev_state s)
         \<and> t_to tr = presence_of (prev_state (main_loop_body w fr s))
         \<and> (t_to tr = Present \<longleftrightarrow> fr_face_count fr > 0)
         \<and> (t_to tr = Absent \<longleftrightarrow> fr_face_count fr = 0)
         \<and> t_count tr = fr_face_count fr
         \<and> (t_to tr = Present \<longrightarrow>
               take 2 (new_effects w fr s) =
                 [Csv_row REPORT_CSV [S (fr_log_ts fr), S ''human'', N (t_count tr), S ''Faces detected''],
                  Stdout (Human_detected (fr_print_ts fr) (t_count tr))])
         \<and> (t_to tr = Absent \<longrightarrow> new_effects w fr s = [Stdout (No_face (fr_print_ts fr))])"
    using body_trace_human [of fr s w] body_trace_no_face [of fr s w]
    by (auto simp: spec_ingest_fst [OF v] body_presence [OF v] split: if_splits)
  from i a b c d show ?thesis by blast
qed

theorem state_tracker_refines_witness:
  "valid_prev (prev_state (init_state Map.empty))
   \<and> presence_of (prev_state (main_loop_body None
         \<lparr>fr_face_count = 2, fr_now = 100, fr_log_ts = ''2024-05-01 10:00:00'',
          fr_print_ts = ''2024-05-01 10:00:00'', fr_key_q = False\<rparr> (init_state Map.empty))) = Present
   \<and> fst (spec_ingest Unknown
         \<lparr>fr_face_count = 2, fr_now = 100, fr_log_ts = ''2024-05-01 10:00:00'',
          fr_print_ts = ''2024-05-01 10:00:00'', fr_key_q = False\<rparr>) =
       Some \<lparr>t_from = Unknown, t_to = Present, t_at = 100, t_count = 2\<rparr>"
proof -
  have h: "valid_prev (prev_state (init_state Map.empty))"
    by (simp add: init_state_def valid_prev_def)
  from state_tracker_refines [OF h, where w = None and fs = Map.empty
      and fr = "\<lparr>fr_face_count = 2, fr_now = 100, fr_log_ts = ''2024-05-01 10:00:00'',
        fr_print_ts = ''2024-05-01 10:00:00'', fr_key_q = False\<rparr>"] h
  show ?thesis
    by (simp add: spec_ingest_def presence_of_def init_state_def)
qed

subsection \<open>Starting an alert episode\<close>

lemma new_effects_cases:
  "new_effects w fr s =
     (if Some (state_of fr) = prev_state s then []
      else if fr_face_count fr > 0 then
        [Csv_row REPORT_CSV [S (fr_log_ts fr), S ''human'', N (fr_face_count fr), S ''Faces detected''],
         Stdout (Human_detected (fr_print_ts fr) (fr_face_count fr))]
        @ (if fr_now fr - last_alert_time s \<ge> ALERT_COOLDOWN
           then [Thread_start VOICE_MESSAGE w HUMAN_ALERT_DURATION 2, Set_last_alert_time (fr_now fr)]
           else [])
      else [Stdout (No_face (fr_print_ts fr))])"
  by (simp add: new_effects_def main_loop_body_def Let_def emit_simps state_of_def)

lemma starts_episode_iff:
  "starts_episode w fr s \<longleftrightarrow>
     fr_face_count fr > 0 \<and> prev_state s \<noteq> Some ''human'' \<and> fr_now fr - last_alert_time s \<ge> ALERT_COOLDOWN"
  by (auto simp: starts_episode_def new_effects_cases state_of_def)

lemma body_last_alert_time:
  "last_alert_time (main_loop_body w fr s) =
     (if starts_episode w fr s then fr_now fr else last_alert_time s)"
  by (simp add: starts_episode_iff main_loop_body_def Let_def emit_simps)

text \<open>
  Claim C2, as amended. In a pass that starts an alert episode the thread is started
  first and \<open>last_alert_time\<close> is assigned right after it, as the last effect of the
  pass; no assignment stands before the start of the thread. After the pass
  \<open>last_alert_time\<close> is the time of the pass, so the next pass reads the new value. A
  pass that starts no episode does not assign \<open>last_alert_time\<close>.
\<close>

theorem spawn_then_write:
  "(starts_episode w fr s \<longrightarrow>
      new_effects w fr s =
        [Csv_row REPORT_CSV [S (fr_log_ts fr), S ''human'', N (fr_face_count fr), S ''Faces detected''],
         Stdout (Human_detected (fr_print_ts fr) (fr_face_count fr)),
         Thread_start VOICE_MESSAGE w HUMAN_ALERT_DURATION 2,
         Set_last_alert_time (fr_now fr)]
      \<and> precedes is_thread_start is_set_last_alert_time (new_effects w fr s)
      \<and> \<not> precedes is_set_last_alert_time is_thread_start (new_effects w fr s)
      \<and> last_alert_time (main_loop_body w fr s) = fr_now fr)
   \<and> (\<not> starts_episode w fr s \<longrightarrow>
      \<not> list_ex is_set_last_alert_time (new_effects w fr s)
      \<and> last_alert_time (main_loop_body w fr s) = last_alert_time s)"
proof (cases "starts_episode w fr s")
  case True
  then have "new_effects w fr s =
        [Csv_row REPORT_CSV [S (fr_log_ts fr), S ''human'', N (fr_face_count fr), S ''Faces detected''],
         Stdout (Human_detected (fr_print_ts fr) (fr_face_count fr)),
         Thread_start VOICE_MESSAGE w HUMAN_ALERT_DURATION 2,
         Set_last_alert_time (fr_now fr)]"
    by (auto simp: starts_episode_iff new_effects_cases state_of_def)
  with True show ?thesis
    by (simp add: body_last_alert_time)
next
  case False
  then have "\<not> list_ex is_set_last_alert_time (new_effects w fr s)"
    by (auto simp: starts_episode_iff new_effects_cases state_of_def)
  with False show ?thesis
    by (simp add: body_last_alert_time)
qed

theorem write_before_spawn_counterexample:
  "\<not> precedes is_set_last_alert_time is_thread_start
       (new_effects None
          \<lparr>fr_face_count = 1, fr_now = 100, fr_log_ts = ''2024-05-01 10:00:00'',
           fr_print_ts = ''2024-05-01 10:00:00'', fr_key_q = False\<rparr> (init_state Map.empty))
   \<and> new_effects None
          \<lparr>fr_face_count = 1, fr_now = 100, fr_log_ts = ''2024-05-01 10:00:00'',
           fr_print_ts = ''2024-05-01 10:00:00'', fr_key_q = False\<rparr> (init_state Map.empty) =
       [Csv_row REPORT_CSV [S ''2024-05-01 10:00:00'', S ''human'', N 1, S ''Faces detected''],
        Stdout (Human_detected ''2024-05-01 10:00:00'' 1),
        Thread_start VOICE_MESSAGE None HUMAN_ALERT_DURATION 2,
        Set_last_alert_time 100]"
  by (simp add: new_effects_cases state_of_def init_state_def ALERT_COOLDOWN_def)

theorem spawn_then_write_witness:
  "starts_episode None
     \<lparr>fr_face_count = 1, fr_now = 100, fr_log_ts = ''2024-05-01 10:00:00'',
      fr_print_ts = ''2024-05-01 10:00:00'', fr_key_q = False\<rparr> (init_state Map.empty)
   \<and> last_alert_time (main_loop_body None
     \<lparr>fr_face_count = 1, fr_now = 100, fr_log_ts = ''2024-05-01 10:00:00'',
      fr_print_ts = ''2024-05-01 10:00:00'', fr_key_q = False\<rparr> (init_state Map.empty)) = 100
   \<and> precedes is_thread_start is_set_last_alert_time (new_effects None
     \<lparr>fr_face_count = 1, fr_now = 100, fr_log_ts = ''2024-05-01 10:00:00'',
      fr_print_ts = ''2024-05-01 10:00:00'', fr_key_q = False\<rparr> (init_state Map.empty))"
proof -
  have h: "starts_episode None
     \<lparr>fr_face_count = 1, fr_now = 100, fr_log_ts = ''2024-05-01 10:00:00'',
      fr_print_ts = ''2024-05-01 10:00:00'', fr_key_q = False\<rparr> (init_state Map.empty)"
    by (simp add: starts_episode_iff init_state_def ALERT_COOLDOWN_def)
  from spawn_then_write [of None
     "\<lparr>fr_face_count = 1, fr_now = 100, fr_log_ts = ''2024-05-01 10:00:00'',
      fr_print_ts = ''2024-05-01 10:00:00'', fr_key_q = False\<rparr>" "init_state Map.empty"] h
  show ?thesis by simp
qed

subsection \<open>The cooldown\<close>

lemma run_passes_append:
  "run_passes w (xs @ ys) s = run_passes w ys (run_passes w xs s)"
  by (induction xs arbitrary: s) simp_all

lemma body_last_alert_mono: "last_alert_time s \<le> last_alert_time (main_loop_body w fr s)"
  by (simp add: body_last_alert_time starts_episode_iff ALERT_COOLDOWN_def)

lemma run_passes_last_alert_mono: "last_alert_time s \<le> last_alert_time (run_passes w frs s)"
proof (induction frs arbitrary: s)
  case Nil
  show ?case by simp
next
  case (Cons fr frs)
  have "last_alert_time s \<le> last_alert_time (main_loop_body w fr s)"
    by (rule body_last_alert_mono)
  also have "\<dots> \<le> last_alert_time (run_passes w frs (main_loop_body w fr s))"
    by (rule Cons.IH)
  finally show ?case by simp
qed

lemma never_fired_last_alert:
  "last_alert_time (run_passes w frs s) = last_alert_time s
   \<or> (\<exists>pre f post. frs = pre @ f # post \<and> starts_episode w f (run_passes w pre s))"
proof (induction frs rule: rev_induct)
  case Nil
  show ?case by simp
next
  case (snoc x xs)
  from snoc.IH show ?case
  proof
    assume same: "last_alert_time (run_passes w xs s) = last_alert_time s"
    show ?thesis
    proof (cases "starts_episode w x (run_passes w xs s)")
      case True
      then have "xs @ [x] = xs @ x # [] \<and> starts_episode w x (run_passes w xs s)" by simp
      then show ?thesis by blast
    next
      case False
      with same show ?thesis
        by (simp add: run_passes_append body_last_alert_time)
    qed
  next
    assume "\<exists>pre f post. xs = pre @ f # post \<and> starts_episode w f (run_passes w pre s)"
    then obtain pre f post where "xs = pre @ f # post" "starts_episode w f (run_passes w pre s)"
      by blast
    then have "xs @ [x] = pre @ f # (post @ [x]) \<and> starts_episode w f (run_passes w pre s)"
      by simp
    then show ?thesis by blast
  qed
qed

lemma cooldown_suppresses:
  assumes "starts_episode w f1 (run_passes w pre s)"
    and "fr_now f2 - fr_now f1 < ALERT_COOLDOWN"
  shows "\<not> starts_episode w f2 (run_passes w (pre @ f1 # mid) s)"
proof
  let ?s1 = "run_passes w pre s"
  let ?s2 = "run_passes w (pre @ f1 # mid) s"
  assume st: "starts_episode w f2 ?s2"
  have "last_alert_time (main_loop_body w f1 ?s1) = fr_now f1"
    using assms(1) by (simp add: body_last_alert_time)
  moreover have "?s2 = run_passes w mid (main_loop_body w f1 ?s1)"
    by (simp add: run_passes_append)
  ultimately have "fr_now f1 \<le> last_alert_time ?s2"
    using run_passes_last_alert_mono [of "main_loop_body w f1 ?s1" w mid] by simp
  moreover from st have "ALERT_COOLDOWN \<le> fr_now f2 - last_alert_time ?s2"
    by (simp add: starts_episode_iff)
  ultimately show False using assms(2) by simp
qed

lemma spec_step_eq:
  assumes "valid_prev (prev_state s)"
  shows "spec_step (presence_of (prev_state s), l) fr =
     (fr_face_count fr > 0 \<and> prev_state s \<noteq> Some ''human''
        \<and> (case l of None \<Rightarrow> True | Some t \<Rightarrow> \<not> fr_now fr - t < ALERT_COOLDOWN),
      (if fr_face_count fr > 0 then Present else Absent),
      (if fr_face_count fr > 0 \<and> prev_state s \<noteq> Some ''human''
        \<and> (case l of None \<Rightarrow> True | Some t \<Rightarrow> \<not> fr_now fr - t < ALERT_COOLDOWN)
       then Some (fr_now fr) else l))"
proof -
  have "spec_ingest (presence_of (prev_state s)) fr =
      (fst (spec_ingest (presence_of (prev_state s)) fr), snd (spec_ingest (presence_of (prev_state s)) fr))"
    by simp
  then show ?thesis
    using assms
    by (auto simp: spec_step_def spec_ingest_fst [OF assms] spec_ingest_snd [OF assms]
          spec_on_transition_def state_of_def valid_prev_def
          simp del: prod.collapse split: option.splits)
qed

lemma pass_refines_step:
  assumes v: "valid_prev (prev_state s)"
    and a: "last_alert_time s = last_of l"
    and c: "ALERT_COOLDOWN \<le> fr_now fr"
  shows "starts_episode w fr s = fst (spec_step (presence_of (prev_state s), l) fr)"
    and "presence_of (prev_state (main_loop_body w fr s)) = fst (snd (spec_step (presence_of (prev_state s), l) fr))"
    and "last_alert_time (main_loop_body w fr s) = last_of (snd (snd (spec_step (presence_of (prev_state s), l) fr)))"
proof -
  show st: "starts_episode w fr s = fst (spec_step (presence_of (prev_state s), l) fr)"
    using a c by (cases l) (auto simp: spec_step_eq [OF v] starts_episode_iff last_of_def)
  show "presence_of (prev_state (main_loop_body w fr s)) = fst (snd (spec_step (presence_of (prev_state s), l) fr))"
    by (simp add: spec_step_eq [OF v] body_presence [OF v])
  show "last_alert_time (main_loop_body w fr s) = last_of (snd (snd (spec_step (presence_of (prev_state s), l) fr)))"
    using a st by (simp add: body_last_alert_time) (simp add: spec_step_eq [OF v] last_of_def)
qed

lemma run_refines_orchestrate:
  "valid_prev (prev_state s) \<Longrightarrow> last_alert_time s = last_of l \<Longrightarrow>
   \<forall>fr\<in>set frs. ALERT_COOLDOWN \<le> fr_now fr \<Longrightarrow>
   presence_of (prev_state (run_passes w frs s)) = fst (spec_orchestrate (presence_of (prev_state s), l) frs)
   \<and> last_alert_time (run_passes w frs s) = last_of (snd (spec_orchestrate (presence_of (prev_state s), l) frs))
   \<and> valid_prev (prev_state (run_passes w frs s))"
proof (induction frs arbitrary: s l)
  case Nil
  then show ?case by simp
next
  case (Cons fr frs)
  let ?s' = "main_loop_body w fr s"
  let ?st = "spec_step (presence_of (prev_state s), l) fr"
  have c: "ALERT_COOLDOWN \<le> fr_now fr" using Cons.prems(3) by simp
  have v': "valid_prev (prev_state ?s')" by (rule body_valid_prev [OF Cons.prems(1)])
  have p': "presence_of (prev_state ?s') = fst (snd ?st)"
    by (rule pass_refines_step(2) [OF Cons.prems(1,2) c])
  have a': "last_alert_time ?s' = last_of (snd (snd ?st))"
    by (rule pass_refines_step(3) [OF Cons.prems(1,2) c])
  have r: "\<forall>fr\<in>set frs. ALERT_COOLDOWN \<le> fr_now fr" using Cons.prems(3) by simp
  have e: "snd ?st = (presence_of (prev_state ?s'), snd (snd ?st))"
    using p' by (simp add: prod_eq_iff)
  from Cons.IH [OF v' a' r] show ?case
    by (simp add: e [symmetric])
qed

text \<open>
  Claim C3. The clock of a pass is taken to read at least the cooldown: \<open>time.time()\<close>
  counts the seconds since 1970. Then a pass starts an alert episode exactly when the
  specification's orchestrator does on the sample, with \<open>last_alert_time\<close> holding the
  orchestrator's time (0 while it has never fired), and after the pass it holds the
  orchestrator's new time: the time of the pass when an episode started, the old value
  otherwise. So no episode starts with an elapsed time below the cooldown, a change into
  "human" with an elapsed time of at least the cooldown starts one, and so does every
  change into "human" of a loop that has never fired. From the start of \<open>main\<close>, over
  any frames, the loop's state is the state of the specification's tracker and
  orchestrator. Of two changes into "human" whose times differ by less than the cooldown,
  whatever passes lie between them, the second starts no episode when the first has
  started one.
\<close>

theorem cooldown_gate:
  assumes "valid_prev (prev_state s)"
    and "last_alert_time s = last_of l"
    and "ALERT_COOLDOWN \<le> fr_now fr"
  shows "starts_episode w fr s = fst (spec_step (presence_of (prev_state s), l) fr)
     \<and> presence_of (prev_state (main_loop_body w fr s)) =
         fst (snd (spec_step (presence_of (prev_state s), l) fr))
     \<and> last_alert_time (main_loop_body w fr s) =
         last_of (snd (snd (spec_step (presence_of (prev_state s), l) fr)))
     \<and> (starts_episode w fr s \<longrightarrow>
          ALERT_COOLDOWN \<le> fr_now fr - last_alert_time s
          \<and> last_alert_time (main_loop_body w fr s) = fr_now fr)
     \<and> (\<not> starts_episode w fr s \<longrightarrow>
          last_alert_time (main_loop_body w fr s) = last_alert_time s)
     \<and> (fr_face_count fr > 0 \<and> prev_state s \<noteq> Some ''human''
          \<and> ALERT_COOLDOWN \<le> fr_now fr - last_alert_time s \<longrightarrow> starts_episode w fr s)
     \<and> (l = None \<and> fr_face_count fr > 0 \<and> prev_state s \<noteq> Some ''human'' \<longrightarrow>
          starts_episode w fr s)
     \<and> valid_prev (prev_state (init_state fs))
     \<and> presence_of (prev_state (init_state fs)) = Unknown
     \<and> last_alert_time (init_state fs) = last_of None
     \<and> ((\<forall>f\<in>set frs. ALERT_COOLDOWN \<le> fr_now f) \<longrightarrow>
          presence_of (prev_state (run_passes w frs (init_state fs))) =
            fst (spec_orchestrate (Unknown, None) frs)
          \<and> last_alert_time (run_passes w frs (init_state fs)) =
            last_of (snd (spec_orchestrate (Unknown, None) frs))
          \<and> valid_prev (prev_state (run_passes w frs (init_state fs))))
     \<and> (starts_episode w fa (run_passes w pre s) \<and> fr_now fb - fr_now fa < ALERT_COOLDOWN \<longrightarrow>
          \<not> starts_episode w fb (run_passes w (pre @ fa # mid) s))"
proof -
  note v = assms(1) and a = assms(2) and c = assms(3)
  have p1: "starts_episode w fr s = fst (spec_step (presence_of (prev_state s), l) fr)"
    by (rule pass_refines_step(1) [OF v a c])
  have p2: "presence_of (prev_state (main_loop_body w fr s)) =
         fst (snd (spec_step (presence_of (prev_state s), l) fr))"
    by (rule pass_refines_step(2) [OF v a c])
  have p3: "last_alert_time (main_loop_body w fr s) =
         last_of (snd (snd (spec_step (presence_of (prev_state s), l) fr)))"
    by (rule pass_refines_step(3) [OF v a c])
  have p4: "starts_episode w fr s \<longrightarrow>
          ALERT_COOLDOWN \<le> fr_now fr - last_alert_time s
          \<and> last_alert_time (main_loop_body w fr s) = fr_now fr"
    by (simp add: body_last_alert_time) (simp add: starts_episode_iff)
  have p5: "\<not> starts_episode w fr s \<longrightarrow>
          last_alert_time (main_loop_body w fr s) = last_alert_time s"
    by (simp add: body_last_alert_time)
  have p6: "fr_face_count fr > 0 \<and> prev_state s \<noteq> Some ''human''
          \<and> ALERT_COOLDOWN \<le> fr_now fr - last_alert_time s \<longrightarrow> starts_episode w fr s"
    by (simp add: starts_episode_iff)
  have p7: "l = None \<and> fr_face_count fr > 0 \<and> prev_state s \<noteq> Some ''human'' \<longrightarrow>
          starts_episode w fr s"
    using a c by (simp add: starts_episode_iff last_of_def)
  have i1: "valid_prev (prev_state (init_state fs))"
    by (simp add: init_state_def valid_prev_def)
  have i2: "presence_of (prev_state (init_state fs)) = Unknown"
    by (simp add: init_state_def presence_of_def)
  have i3: "last_alert_time (init_state fs) = last_of None"
    by (simp add: init_state_def last_of_def)
  have r: "(\<forall>f\<in>set frs. ALERT_COOLDOWN \<le> fr_now f) \<longrightarrow>
          presence_of (prev_state (run_passes w frs (init_state fs))) =
            fst (spec_orchestrate (Unknown, None) frs)
          \<and> last_alert_time (run_passes w frs (init_state fs)) =
            last_of (snd (spec_orchestrate (Unknown, None) frs))
          \<and> valid_prev (prev_state (run_passes w frs (init_state fs)))"
  proof
    assume "\<forall>f\<in>set frs. ALERT_COOLDOWN \<le> fr_now f"
    from run_refines_orchestrate [OF i1 i3 this, of w]
    show "presence_of (prev_state (run_passes w frs (init_state fs))) =
            fst (spec_orchestrate (Unknown, None) frs)
          \<and> last_alert_time (run_passes w frs (init_state fs)) =
            last_of (snd (spec_orchestrate (Unknown, None) frs))
          \<and> valid_prev (prev_state (run_passes w frs (init_state fs)))"
      by (simp add: i2)
  qed
  have d: "starts_episode w fa (run_passes w pre s) \<and> fr_now fb - fr_now fa < ALERT_COOLDOWN \<longrightarrow>
        \<not> starts_episode w fb (run_passes w (pre @ fa # mid) s)"
    using cooldown_suppresses [of w fa pre s fb mid] by blast
  show ?thesis
    by (intro conjI p1 p2 p3 p4 p5 p6 p7 i1 i2 i3 r d)
qed

theorem cooldown_gate_witness:
  "valid_prev (prev_state (init_state Map.empty))
   \<and> last_alert_time (init_state Map.empty) = last_of None
   \<and> ALERT_COOLDOWN \<le> fr_now
        \<lparr>fr_face_count = 2, fr_now = 100, fr_log_ts = ''a'', fr_print_ts = ''a'', fr_key_q = False\<rparr>
   \<and> starts_episode None
        \<lparr>fr_face_count = 2, fr_now = 100, fr_log_ts = ''a'', fr_print_ts = ''a'', fr_key_q = False\<rparr>
        (init_state Map.empty)
   \<and> last_alert_time (main_loop_body None
        \<lparr>fr_face_count = 2, fr_now = 100, fr_log_ts = ''a'', fr_print_ts = ''a'', fr_key_q = False\<rparr>
        (init_state Map.empty)) = 100"
proof -
  have h1: "valid_prev (prev_state (init_state Map.empty))"
    by (simp add: init_state_def valid_prev_def)
  have h2: "last_alert_time (init_state Map.empty) = last_of None"
    by (simp add: init_state_def last_of_def)
  have h3: "ALERT_COOLDOWN \<le> fr_now
        \<lparr>fr_face_count = 2, fr_now = 100, fr_log_ts = ''a'', fr_print_ts = ''a'', fr_key_q = False\<rparr>"
    by (simp add: ALERT_COOLDOWN_def)
  note t = cooldown_gate [OF h1 h2 h3, where w = None]
  have p: "presence_of (prev_state (init_state Map.empty)) = Unknown"
    by (simp add: init_state_def presence_of_def)
  have e: "spec_step (Unknown, None)
        \<lparr>fr_face_count = 2, fr_now = 100, fr_log_ts = ''a'', fr_print_ts = ''a'', fr_key_q = False\<rparr>
      = (True, Present, Some 100)"
    by (simp add: spec_step_def spec_ingest_def spec_on_transition_def)
  from t [THEN conjunct1] have st: "starts_episode None
        \<lparr>fr_face_count = 2, fr_now = 100, fr_log_ts = ''a'', fr_print_ts = ''a'', fr_key_q = False\<rparr>
        (init_state Map.empty)"
    by (simp add: p e)
  from t [THEN conjunct2, THEN conjunct2, THEN conjunct1]
  have la: "last_alert_time (main_loop_body None
        \<lparr>fr_face_count = 2, fr_now = 100, fr_log_ts = ''a'', fr_print_ts = ''a'', fr_key_q = False\<rparr>
        (init_state Map.empty)) = 100"
    by (simp add: p e last_of_def)
  from h1 h2 h3 st la show ?thesis by (intro conjI)
qed

subsection \<open>The rows of the report\<close>

lemma rows_of_log_event:
  "rows_of (log_event ts p d n notes fs) p = rows_of fs p @ [[S ts, S d, N n, S notes]]"
  by (simp add: log_event_def rows_of_def)

lemma log_event_other: "q \<noteq> p \<Longrightarrow> log_event ts p d n notes fs q = fs q"
  by (simp add: log_event_def)

lemma body_files:
  "files (main_loop_body w fr s) =
     (if Some (state_of fr) \<noteq> prev_state s \<and> 0 < fr_face_count fr
      then log_event (fr_log_ts fr) REPORT_CSV ''human'' (fr_face_count fr) ''Faces detected'' (files s)
      else files s)"
  by (simp add: main_loop_body_def Let_def emit_simps state_of_def)

lemma body_rows:
  "rows_of (files (main_loop_body w fr s)) REPORT_CSV =
     rows_of (files s) REPORT_CSV @
       (if Some (state_of fr) \<noteq> prev_state s \<and> 0 < fr_face_count fr
        then [[S (fr_log_ts fr), S ''human'', N (fr_face_count fr), S ''Faces detected'']] else [])"
  by (simp add: body_files rows_of_log_event)

lemma body_files_present:
  "files s p \<noteq> None \<Longrightarrow> files (main_loop_body w fr s) p \<noteq> None"
  by (simp add: body_files log_event_def)

lemma run_passes_files_present:
  "files s p \<noteq> None \<Longrightarrow> files (run_passes w frs s) p \<noteq> None"
proof (induction frs arbitrary: s)
  case Nil
  then show ?case by simp
next
  case (Cons fr frs)
  from Cons.prems have "files (main_loop_body w fr s) p \<noteq> None"
    by (rule body_files_present)
  from Cons.IH [OF this] show ?case by simp
qed

lemma main_loop_run_passes:
  "main_loop w frs s =
     emit (Stdout (if list_ex fr_key_q frs then Quitting else Capture_failed))
       (run_passes w (processed frs) s)"
  by (induction frs arbitrary: s) (simp_all add: Let_def)

lemma run_passes_rows:
  "\<exists>rows. rows_of (files (run_passes w frs s)) REPORT_CSV = rows_of (files s) REPORT_CSV @ rows
     \<and> (\<forall>r\<in>set rows. \<exists>fr\<in>set frs. 0 < fr_face_count fr
           \<and> r = [S (fr_log_ts fr), S ''human'', N (fr_face_count fr), S ''Faces detected''])"
proof (induction frs arbitrary: s)
  case Nil
  show ?case by simp
next
  case (Cons fr frs)
  let ?s' = "main_loop_body w fr s"
  let ?new = "(if Some (state_of fr) \<noteq> prev_state s \<and> 0 < fr_face_count fr
        then [[S (fr_log_ts fr), S ''human'', N (fr_face_count fr), S ''Faces detected'']] else [])"
  from Cons.IH [of ?s'] obtain rows where
    r1: "rows_of (files (run_passes w frs ?s')) REPORT_CSV = rows_of (files ?s') REPORT_CSV @ rows"
    and r2: "\<forall>r\<in>set rows. \<exists>fr\<in>set frs. 0 < fr_face_count fr
           \<and> r = [S (fr_log_ts fr), S ''human'', N (fr_face_count fr), S ''Faces detected'']"
    by blast
  have a: "rows_of (files (run_passes w (fr # frs) s)) REPORT_CSV =
      rows_of (files s) REPORT_CSV @ (?new @ rows)"
    using r1 by (simp add: body_rows)
  have b: "\<forall>r\<in>set (?new @ rows). \<exists>f\<in>set (fr # frs). 0 < fr_face_count f
           \<and> r = [S (fr_log_ts f), S ''human'', N (fr_face_count f), S ''Faces detected'']"
    using r2 by auto
  from a b show ?case by blast
qed

lemma spec_run_Cons:
  assumes "valid_prev (prev_state s)"
  shows "spec_run (presence_of (prev_state s)) (fr # frs) =
     (if Some (state_of fr) = prev_state s then []
      else [\<lparr>t_from = presence_of (prev_state s),
             t_to = (if fr_face_count fr > 0 then Present else Absent),
             t_at = fr_now fr, t_count = fr_face_count fr\<rparr>])
     @ spec_run (presence_of (prev_state (main_loop_body w fr s))) frs"
proof -
  have "spec_ingest (presence_of (prev_state s)) fr =
      (fst (spec_ingest (presence_of (prev_state s)) fr), snd (spec_ingest (presence_of (prev_state s)) fr))"
    by simp
  then show ?thesis
    by (simp add: spec_ingest_fst [OF assms] spec_ingest_snd [OF assms] body_presence [OF assms]
          del: prod.collapse)
qed

lemma run_passes_count:
  "valid_prev (prev_state s) \<Longrightarrow>
   length (rows_of (files (run_passes w frs s)) REPORT_CSV) =
     length (rows_of (files s) REPORT_CSV)
     + length (filter (\<lambda>tr. t_to tr = Present) (spec_run (presence_of (prev_state s)) frs))"
proof (induction frs arbitrary: s)
  case Nil
  show ?case by simp
next
  case (Cons fr frs)
  note v = Cons.prems
  have v': "valid_prev (prev_state (main_loop_body w fr s))"
    by (rule body_valid_prev [OF v])
  show ?case
    using Cons.IH [OF v']
    by (subst spec_run_Cons [OF v, of fr frs w]) (simp add: body_rows)
qed

lemma run_passes_prefix:
  "take (length (rows_of (files s) REPORT_CSV)) (rows_of (files (run_passes w frs s)) REPORT_CSV)
     = rows_of (files s) REPORT_CSV"
  using run_passes_rows [of w frs s] by auto

lemma main_loop_files: "files (main_loop w frs s) = files (run_passes w (processed frs) s)"
  by (simp add: main_loop_run_passes emit_simps)

text \<open>
  Claim C4. A pass that is a transition into Present appends exactly one row to the
  report; a pass that is a transition into Absent, or no transition, leaves every file as
  it is. Over any sequence of frames the loop only appends to the report, and the number
  of rows it appends is the number of transitions into Present that the specification's
  tracker returns for the frames handled.
\<close>

theorem logger_one_row_per_entry:
  assumes "valid_prev (prev_state s)"
  shows "(\<forall>tr. fst (spec_ingest (presence_of (prev_state s)) fr) = Some tr \<and> t_to tr = Present \<longrightarrow>
            (\<exists>r. rows_of (files (main_loop_body w fr s)) REPORT_CSV = rows_of (files s) REPORT_CSV @ [r]))
     \<and> (\<forall>tr. fst (spec_ingest (presence_of (prev_state s)) fr) = Some tr \<and> t_to tr = Absent \<longrightarrow>
            files (main_loop_body w fr s) = files s)
     \<and> (fst (spec_ingest (presence_of (prev_state s)) fr) = None \<longrightarrow>
            files (main_loop_body w fr s) = files s)
     \<and> length (rows_of (files (main_loop w frs s)) REPORT_CSV) =
         length (rows_of (files s) REPORT_CSV)
         + length (filter (\<lambda>tr. t_to tr = Present)
                     (spec_run (presence_of (prev_state s)) (processed frs)))
     \<and> take (length (rows_of (files s) REPORT_CSV)) (rows_of (files (main_loop w frs s)) REPORT_CSV)
         = rows_of (files s) REPORT_CSV"
proof -
  note v = assms
  have a: "\<forall>tr. fst (spec_ingest (presence_of (prev_state s)) fr) = Some tr \<and> t_to tr = Present \<longrightarrow>
            (\<exists>r. rows_of (files (main_loop_body w fr s)) REPORT_CSV = rows_of (files s) REPORT_CSV @ [r])"
    by (auto simp: spec_ingest_fst [OF v] body_rows split: if_splits)
  have b: "\<forall>tr. fst (spec_ingest (presence_of (prev_state s)) fr) = Some tr \<and> t_to tr = Absent \<longrightarrow>
            files (main_loop_body w fr s) = files s"
    by (auto simp: spec_ingest_fst [OF v] body_files split: if_splits)
  have c: "fst (spec_ingest (presence_of (prev_state s)) fr) = None \<longrightarrow>
            files (main_loop_body w fr s) = files s"
    by (auto simp: spec_ingest_fst [OF v] body_files split: if_splits)
  have d: "length (rows_of (files (main_loop w frs s)) REPORT_CSV) =
         length (rows_of (files s) REPORT_CSV)
         + length (filter (\<lambda>tr. t_to tr = Present)
                     (spec_run (presence_of (prev_state s)) (processed frs)))"
    by (simp add: main_loop_files run_passes_count [OF v])
  have e: "take (length (rows_of (files s) REPORT_CSV)) (rows_of (files (main_loop w frs s)) REPORT_CSV)
         = rows_of (files s) REPORT_CSV"
    by (simp add: main_loop_files run_passes_prefix)
  from a b c d e show ?thesis by blast
qed

theorem logger_one_row_per_entry_witness:
  "valid_prev (prev_state (init_state Map.empty))
   \<and> map (\<lambda>tr. (t_from tr, t_to tr)) (spec_run Unknown (processed scenario_A)) =
       [(Unknown, Absent), (Absent, Present), (Present, Absent)]
   \<and> length (rows_of (files (main_loop None scenario_A (init_state Map.empty))) REPORT_CSV) = 1"
proof -
  have h: "valid_prev (prev_state (init_state Map.empty))"
    by (simp add: init_state_def valid_prev_def)
  have r: "spec_run Unknown (processed scenario_A) =
     [\<lparr>t_from = Unknown, t_to = Absent, t_at = 100, t_count = 0\<rparr>,
      \<lparr>t_from = Absent, t_to = Present, t_at = 102, t_count = 2\<rparr>,
      \<lparr>t_from = Present, t_to = Absent, t_at = 104, t_count = 0\<rparr>]"
    by (simp add: scenario_A_def spec_ingest_def)
  from logger_one_row_per_entry [OF h, of _ None scenario_A] h r
  show ?thesis
    by (simp add: init_state_def presence_of_def rows_of_def)
qed

lemma body_rows_now:
  "rows_of (files (main_loop_body w (fr\<lparr>fr_now := t\<rparr>) s)) REPORT_CSV =
   rows_of (files (main_loop_body w fr s)) REPORT_CSV"
  by (simp add: body_rows state_of_def)

text \<open>
  Claim C5, as amended. The row appended for a transition into Present is the timestamp
  that \<open>log_event\<close> reads from the clock itself when it appends (formatted as a
  string), the state \<open>human\<close>, the face count of the transition and the note
  \<open>Faces detected\<close>. The row does not depend on the time \<open>now\<close> of the pass.
  Every row that the loop appends to the report is such a row of a frame it has handled.
\<close>

theorem log_row_content:
  assumes "valid_prev (prev_state s)"
  shows "(\<forall>tr. fst (spec_ingest (presence_of (prev_state s)) fr) = Some tr \<and> t_to tr = Present \<longrightarrow>
            rows_of (files (main_loop_body w fr s)) REPORT_CSV =
              rows_of (files s) REPORT_CSV
              @ [[S (fr_log_ts fr), S ''human'', N (t_count tr), S ''Faces detected'']])
     \<and> rows_of (files (main_loop_body w (fr\<lparr>fr_now := t\<rparr>) s)) REPORT_CSV =
         rows_of (files (main_loop_body w fr s)) REPORT_CSV
     \<and> (\<exists>rows. rows_of (files (main_loop w frs s)) REPORT_CSV = rows_of (files s) REPORT_CSV @ rows
           \<and> (\<forall>r\<in>set rows. \<exists>f\<in>set (processed frs). 0 < fr_face_count f
                 \<and> r = [S (fr_log_ts f), S ''human'', N (fr_face_count f), S ''Faces detected'']))"
proof -
  note v = assms
  have a: "\<forall>tr. fst (spec_ingest (presence_of (prev_state s)) fr) = Some tr \<and> t_to tr = Present \<longrightarrow>
            rows_of (files (main_loop_body w fr s)) REPORT_CSV =
              rows_of (files s) REPORT_CSV
              @ [[S (fr_log_ts fr), S ''human'', N (t_count tr), S ''Faces detected'']]"
    by (auto simp: spec_ingest_fst [OF v] body_rows split: if_splits)
  have c: "\<exists>rows. rows_of (files (main_loop w frs s)) REPORT_CSV = rows_of (files s) REPORT_CSV @ rows
           \<and> (\<forall>r\<in>set rows. \<exists>f\<in>set (processed frs). 0 < fr_face_count f
                 \<and> r = [S (fr_log_ts f), S ''human'', N (fr_face_count f), S ''Faces detected''])"
    using run_passes_rows [of w "processed frs" s] by (simp add: main_loop_files)
  from a body_rows_now [where w = w and fr = fr and t = t and s = s] c show ?thesis by blast
qed

theorem log_row_content_witness:
  "valid_prev (prev_state (init_state Map.empty))
   \<and> fst (spec_ingest (presence_of (prev_state (init_state Map.empty)))
        \<lparr>fr_face_count = 2, fr_now = 100, fr_log_ts = ''2024-05-01 10:00:07'',
         fr_print_ts = ''2024-05-01 10:00:08'', fr_key_q = False\<rparr>) =
       Some \<lparr>t_from = Unknown, t_to = Present, t_at = 100, t_count = 2\<rparr>
   \<and> rows_of (files (main_loop_body None
        \<lparr>fr_face_count = 2, fr_now = 100, fr_log_ts = ''2024-05-01 10:00:07'',
         fr_print_ts = ''2024-05-01 10:00:08'', fr_key_q = False\<rparr> (init_state Map.empty))) REPORT_CSV =
       [[S ''2024-05-01 10:00:07'', S ''human'', N 2, S ''Faces detected'']]"
proof -
  have h: "valid_prev (prev_state (init_state Map.empty))"
    by (simp add: init_state_def valid_prev_def)
  have i: "fst (spec_ingest (presence_of (prev_state (init_state Map.empty)))
        \<lparr>fr_face_count = 2, fr_now = 100, fr_log_ts = ''2024-05-01 10:00:07'',
         fr_print_ts = ''2024-05-01 10:00:08'', fr_key_q = False\<rparr>) =
       Some \<lparr>t_from = Unknown, t_to = Present, t_at = 100, t_count = 2\<rparr>"
    by (simp add: spec_ingest_def presence_of_def init_state_def)
  have e: "rows_of (files (init_state Map.empty)) REPORT_CSV = []"
    by (simp add: init_state_def rows_of_def)
  from log_row_content [OF h, of
        "\<lparr>fr_face_count = 2, fr_now = 100, fr_log_ts = ''2024-05-01 10:00:07'',
         fr_print_ts = ''2024-05-01 10:00:08'', fr_key_q = False\<rparr>" None] h i e
  show ?thesis by simp
qed

theorem log_row_content_counterexample:
  "rows_of (files (main_loop_body None
        \<lparr>fr_face_count = 2, fr_now = 100, fr_log_ts = ''2024-05-01 10:00:07'',
         fr_print_ts = ''2024-05-01 10:00:08'', fr_key_q = False\<rparr> (init_state Map.empty))) REPORT_CSV =
       [[S ''2024-05-01 10:00:07'', S ''human'', N 2, S ''Faces detected'']]
   \<and> rows_of (files (main_loop_body None
        \<lparr>fr_face_count = 2, fr_now = 100, fr_log_ts = ''2024-05-01 10:00:07'',
         fr_print_ts = ''2024-05-01 10:00:08'', fr_key_q = False\<rparr> (init_state Map.empty))) REPORT_CSV \<noteq>
       [[S ''2024-05-01 10:00:07'', S ''present'', N 2, S ''presence detected'']]"
proof -
  have p: "prev_state (init_state Map.empty) = None"
    by (simp add: init_state_def)
  have e: "rows_of (files (init_state Map.empty)) REPORT_CSV = []"
    by (simp add: init_state_def rows_of_def)
  show ?thesis
    by (simp add: body_rows state_of_def p e)
qed

subsection \<open>Initialising the report\<close>

lemma data_row_not_header:
  "[S ts, S d, N n, S notes] \<noteq> header"
  by (simp add: header_def)

lemma rows_of_present: "fs p \<noteq> None \<Longrightarrow> fs p = Some (rows_of fs p)"
  by (auto simp: rows_of_def)

lemma ensure_present: "ensure_report_exists p fs p \<noteq> None"
  by (simp add: ensure_report_exists_def)

lemma main_files_ex:
  "\<exists>w frs s0. files s0 = ensure_report_exists REPORT_CSV (w_files wd)
      \<and> files (main wd) = files (run_passes w frs s0)"
proof (cases "w_cascade_ok wd \<and> w_camera_ok wd")
  case True
  let ?s0 = "emit (Stdout Started)
     ((init_state (ensure_report_exists REPORT_CSV (w_files wd)))
        \<lparr>trace := map Stdout (snd (load_wave (w_sounds wd) ALERT_SOUND))\<rparr>)"
  have "files ?s0 = ensure_report_exists REPORT_CSV (w_files wd)"
    by (simp add: emit_simps init_state_def)
  moreover have "files (main wd) =
      files (run_passes (fst (load_wave (w_sounds wd) ALERT_SOUND)) (processed (w_frames wd)) ?s0)"
    using True by (simp add: main_def Let_def main_loop_files split: prod.splits)
  ultimately show ?thesis by blast
next
  case False
  let ?s0 = "init_state (ensure_report_exists REPORT_CSV (w_files wd))"
  have "files ?s0 = ensure_report_exists REPORT_CSV (w_files wd)"
    by (simp add: init_state_def)
  moreover have "files (main wd) = files (run_passes None [] ?s0)"
    using False by (auto simp: main_def Let_def emit_simps init_state_def split: prod.splits)
  ultimately show ?thesis by blast
qed

lemma main_rows:
  "\<exists>rows. files (main wd) REPORT_CSV =
       Some (rows_of (ensure_report_exists REPORT_CSV (w_files wd)) REPORT_CSV @ rows)
     \<and> header \<notin> set rows"
proof -
  from main_files_ex [of wd] obtain w frs s0 where
    f0: "files s0 = ensure_report_exists REPORT_CSV (w_files wd)"
    and f1: "files (main wd) = files (run_passes w frs s0)"
    by blast
  from run_passes_rows [of w frs s0] obtain rows where
    r1: "rows_of (files (run_passes w frs s0)) REPORT_CSV = rows_of (files s0) REPORT_CSV @ rows"
    and r2: "\<forall>r\<in>set rows. \<exists>fr\<in>set frs. 0 < fr_face_count fr
           \<and> r = [S (fr_log_ts fr), S ''human'', N (fr_face_count fr), S ''Faces detected'']"
    by blast
  have "files s0 REPORT_CSV \<noteq> None"
    by (simp add: f0 ensure_present)
  then have "files (run_passes w frs s0) REPORT_CSV \<noteq> None"
    by (rule run_passes_files_present)
  then have "files (main wd) REPORT_CSV = Some (rows_of (files (main wd)) REPORT_CSV)"
    unfolding f1 by (rule rows_of_present)
  with r1 have a: "files (main wd) REPORT_CSV =
       Some (rows_of (ensure_report_exists REPORT_CSV (w_files wd)) REPORT_CSV @ rows)"
    by (simp add: f0 f1)
  have b: "header \<notin> set rows"
  proof
    assume "header \<in> set rows"
    with r2 obtain fr :: frame where
      "header = [S (fr_log_ts fr), S ''human'', N (fr_face_count fr), S ''Faces detected'']"
      by blast
    then show False by (simp add: header_def)
  qed
  from a b show ?thesis by blast
qed

text \<open>
  Claim C9, as amended. The header row is \<open>timestamp, detection, face_count, notes\<close>.
  \<open>ensure_report_exists\<close> creates a missing report with the header as its only row,
  changes nothing when the file exists, whatever it holds, and applied twice does what it
  does once. \<open>log_event\<close> appends its row and never a header. \<open>main\<close> initialises
  the report once, before the loop: started without a report it leaves the header as the
  first row, followed by rows that are not the header; started with a report it only
  appends rows that are not the header, so a report that has no header row gets none; and
  a second run on the files of a first run that began without a report still has the
  header once, as the first row.
\<close>

theorem report_initialised_once:
  "header = [S ''timestamp'', S ''detection'', S ''face_count'', S ''notes'']
   \<and> (fs p = None \<longrightarrow>
        ensure_report_exists p fs =
          fs(p \<mapsto> [[S ''timestamp'', S ''detection'', S ''face_count'', S ''notes'']]))
   \<and> (fs p \<noteq> None \<longrightarrow> ensure_report_exists p fs = fs)
   \<and> ensure_report_exists p (ensure_report_exists p fs) = ensure_report_exists p fs
   \<and> rows_of (log_event ts p d n notes fs) p = rows_of fs p @ [[S ts, S d, N n, S notes]]
   \<and> [S ts, S d, N n, S notes] \<noteq> header
   \<and> (w_files wd REPORT_CSV = None \<longrightarrow>
        (\<exists>rows. files (main wd) REPORT_CSV = Some (header # rows) \<and> header \<notin> set rows))
   \<and> (\<forall>old. w_files wd REPORT_CSV = Some old \<longrightarrow>
        (\<exists>rows. files (main wd) REPORT_CSV = Some (old @ rows) \<and> header \<notin> set rows))
   \<and> (\<forall>old. w_files wd REPORT_CSV = Some old \<and> header \<notin> set old \<longrightarrow>
        (\<exists>rows. files (main wd) REPORT_CSV = Some (old @ rows) \<and> header \<notin> set (old @ rows)))
   \<and> (w_files wd REPORT_CSV = None \<and> w_files wd' = files (main wd) \<longrightarrow>
        (\<exists>rows. files (main wd') REPORT_CSV = Some (header # rows) \<and> header \<notin> set rows))"
proof -
  have h0: "header = [S ''timestamp'', S ''detection'', S ''face_count'', S ''notes'']"
    by (simp add: header_def)
  have a: "fs p = None \<longrightarrow>
        ensure_report_exists p fs =
          fs(p \<mapsto> [[S ''timestamp'', S ''detection'', S ''face_count'', S ''notes'']])"
    by (simp add: ensure_report_exists_def header_def)
  have b: "fs p \<noteq> None \<longrightarrow> ensure_report_exists p fs = fs"
    by (simp add: ensure_report_exists_def)
  have c: "ensure_report_exists p (ensure_report_exists p fs) = ensure_report_exists p fs"
    by (simp add: ensure_report_exists_def)
  have d: "w_files wd REPORT_CSV = None \<longrightarrow>
        (\<exists>rows. files (main wd) REPORT_CSV = Some (header # rows) \<and> header \<notin> set rows)"
  proof
    assume n: "w_files wd REPORT_CSV = None"
    then have "rows_of (ensure_report_exists REPORT_CSV (w_files wd)) REPORT_CSV = [header]"
      by (simp add: ensure_report_exists_def rows_of_def)
    with main_rows [of wd]
    show "\<exists>rows. files (main wd) REPORT_CSV = Some (header # rows) \<and> header \<notin> set rows"
      by simp
  qed
  have e: "\<forall>old. w_files wd REPORT_CSV = Some old \<longrightarrow>
        (\<exists>rows. files (main wd) REPORT_CSV = Some (old @ rows) \<and> header \<notin> set rows)"
  proof (intro allI impI)
    fix old
    assume n: "w_files wd REPORT_CSV = Some old"
    then have "rows_of (ensure_report_exists REPORT_CSV (w_files wd)) REPORT_CSV = old"
      by (simp add: ensure_report_exists_def rows_of_def)
    with main_rows [of wd]
    show "\<exists>rows. files (main wd) REPORT_CSV = Some (old @ rows) \<and> header \<notin> set rows"
      by simp
  qed
  have g: "\<forall>old. w_files wd REPORT_CSV = Some old \<and> header \<notin> set old \<longrightarrow>
        (\<exists>rows. files (main wd) REPORT_CSV = Some (old @ rows) \<and> header \<notin> set (old @ rows))"
  proof (intro allI impI)
    fix old
    assume n: "w_files wd REPORT_CSV = Some old \<and> header \<notin> set old"
    with e obtain rows where "files (main wd) REPORT_CSV = Some (old @ rows)" "header \<notin> set rows"
      by auto
    with n have "files (main wd) REPORT_CSV = Some (old @ rows) \<and> header \<notin> set (old @ rows)"
      by simp
    then show "\<exists>rows. files (main wd) REPORT_CSV = Some (old @ rows) \<and> header \<notin> set (old @ rows)"
      by (rule exI)
  qed
  have f: "w_files wd REPORT_CSV = None \<and> w_files wd' = files (main wd) \<longrightarrow>
        (\<exists>rows. files (main wd') REPORT_CSV = Some (header # rows) \<and> header \<notin> set rows)"
  proof
    assume h: "w_files wd REPORT_CSV = None \<and> w_files wd' = files (main wd)"
    then have n: "w_files wd REPORT_CSV = None" and m: "w_files wd' = files (main wd)"
      by simp_all
    from d n obtain rows where r1: "files (main wd) REPORT_CSV = Some (header # rows)"
      and r2: "header \<notin> set rows"
      by auto
    from main_rows [of wd'] obtain rows' where
      r3: "files (main wd') REPORT_CSV =
         Some (rows_of (ensure_report_exists REPORT_CSV (w_files wd')) REPORT_CSV @ rows')"
      and r4: "header \<notin> set rows'"
      by auto
    from m r1 have "rows_of (ensure_report_exists REPORT_CSV (w_files wd')) REPORT_CSV = header # rows"
      by (simp add: ensure_report_exists_def rows_of_def)
    with r3 r2 r4
    have "files (main wd') REPORT_CSV = Some (header # (rows @ rows')) \<and> header \<notin> set (rows @ rows')"
      by simp
    then show "\<exists>rows. files (main wd') REPORT_CSV = Some (header # rows) \<and> header \<notin> set rows"
      by (rule exI)
  qed
  show ?thesis
    by (intro conjI h0 a b c d e g f rows_of_log_event data_row_not_header)
qed

theorem report_initialised_once_witness:
  "w_files world_A REPORT_CSV = None
   \<and> files (main world_A) REPORT_CSV =
       Some [[S ''timestamp'', S ''detection'', S ''face_count'', S ''notes''],
             [S ''t3'', S ''human'', N 2, S ''Faces detected'']]
   \<and> header \<notin> set [[S ''t3'', S ''human'', N 2, S ''Faces detected'']]"
proof -
  have n: "w_files world_A REPORT_CSV = None"
    by (simp add: world_A_def)
  have m: "files (main world_A) REPORT_CSV =
       Some [header, [S ''t3'', S ''human'', N 2, S ''Faces detected'']]"
    by (simp add: main_def world_A_def scenario_A_def load_wave_def Let_def main_loop_files
          init_state_def emit_simps body_files body_prev_state state_of_def
          ensure_report_exists_def log_event_def rows_of_def)
  note t = report_initialised_once [where wd = world_A]
  from t [THEN conjunct1] m
  have x: "files (main world_A) REPORT_CSV =
       Some [[S ''timestamp'', S ''detection'', S ''face_count'', S ''notes''],
             [S ''t3'', S ''human'', N 2, S ''Faces detected'']]"
    by simp
  have y: "header \<notin> set [[S ''t3'', S ''human'', N 2, S ''Faces detected'']]"
    by (simp add: header_def)
  from n x y show ?thesis by (intro conjI)
qed

theorem header_before_append_counterexample:
  "header \<noteq> spec_header
   \<and> w_files world_B REPORT_CSV = Some []
   \<and> ensure_report_exists REPORT_CSV (w_files world_B) = w_files world_B
   \<and> files (main world_B) REPORT_CSV = Some [[S ''t3'', S ''human'', N 2, S ''Faces detected'']]"
proof -
  have a: "header \<noteq> spec_header"
    by (simp add: header_def spec_header_def)
  have b: "w_files world_B REPORT_CSV = Some []"
    by (simp add: world_B_def)
  have c: "ensure_report_exists REPORT_CSV (w_files world_B) = w_files world_B"
    by (simp add: ensure_report_exists_def world_B_def)
  have d: "files (main world_B) REPORT_CSV = Some [[S ''t3'', S ''human'', N 2, S ''Faces detected'']]"
    by (simp add: main_def world_B_def scenario_A_def load_wave_def Let_def main_loop_files
          init_state_def emit_simps body_files body_prev_state state_of_def
          ensure_report_exists_def log_event_def rows_of_def)
  from a b c d show ?thesis by (intro conjI)
qed

subsection \<open>The alert thread\<close>

lemma say_loop_ok:
  "(\<forall>j<n. say_result env (k + j) = None) \<Longrightarrow> say_loop env m k n = (replicate n (Say m), None)"
proof (induction n arbitrary: k)
  case 0
  show ?case by simp
next
  case (Suc n)
  from Suc.prems have here: "say_result env k = None"
    by (metis add.right_neutral zero_less_Suc)
  have "\<forall>j<n. say_result env (Suc k + j) = None"
  proof (intro allI impI)
    fix j assume "j < n"
    then have "Suc j < Suc n" by simp
    with Suc.prems have "say_result env (k + Suc j) = None" by blast
    then show "say_result env (Suc k + j) = None" by simp
  qed
  from Suc.IH [OF this] here show ?case by simp
qed

lemma say_loop_fail:
  "i < n \<Longrightarrow> (\<forall>j<i. say_result env (k + j) = None) \<Longrightarrow> say_result env (k + i) = Some e \<Longrightarrow>
   say_loop env m k n = (replicate (Suc i) (Say m), Some e)"
proof (induction n arbitrary: k i)
  case 0
  then show ?case by simp
next
  case (Suc n)
  show ?case
  proof (cases i)
    case 0
    with Suc.prems show ?thesis by simp
  next
    case (Suc i')
    from Suc.prems(2) Suc have here: "say_result env k = None"
      by (metis add.right_neutral zero_less_Suc)
    have lt: "i' < n" using Suc.prems(1) Suc by simp
    have none: "\<forall>j<i'. say_result env (Suc k + j) = None"
    proof (intro allI impI)
      fix j assume "j < i'"
      then have "Suc j < i" using Suc by simp
      with Suc.prems(2) have "say_result env (k + Suc j) = None" by blast
      then show "say_result env (Suc k + j) = None" by simp
    qed
    have some: "say_result env (Suc k + i') = Some e"
      using Suc.prems(3) Suc by simp
    from Suc.IH [OF lt none some] here Suc show ?thesis by simp
  qed
qed

lemma say_loop_says:
  "\<exists>i\<le>n. fst (say_loop env m k n) = replicate i (Say m)"
proof (induction n arbitrary: k)
  case 0
  show ?case by simp
next
  case (Suc n)
  show ?case
  proof (cases "say_result env k")
    case None
    from Suc.IH [of "Suc k"] obtain i where "i \<le> n" "fst (say_loop env m (Suc k) n) = replicate i (Say m)"
      by blast
    with None have "Suc i \<le> Suc n \<and> fst (say_loop env m k (Suc n)) = replicate (Suc i) (Say m)"
      by (cases "say_loop env m (Suc k) n") simp
    then show ?thesis by blast
  next
    case (Some e)
    then have "Suc 0 \<le> Suc n \<and> fst (say_loop env m k (Suc n)) = replicate (Suc 0) (Say m)"
      by simp
    then show ?thesis by blast
  qed
qed


lemma try_speak_init_fails:
  "init_fails env = Some e \<Longrightarrow> try_speak env m r = ([Tts_init], Some e)"
  by (simp add: try_speak_def)

lemma try_speak_say_fails:
  assumes "init_fails env = None" "i < nat r" "\<forall>j<i. say_result env j = None"
    "say_result env i = Some e"
  shows "try_speak env m r = (Tts_init # replicate (Suc i) (Say m), Some e)"
proof -
  have "say_loop env m 0 (nat r) = (replicate (Suc i) (Say m), Some e)"
    using assms(2,3,4) by (intro say_loop_fail) simp_all
  with assms(1) show ?thesis by (simp add: try_speak_def)
qed

lemma try_speak_run_fails:
  assumes "init_fails env = None" "\<forall>j<nat r. say_result env j = None" "run_fails env = Some e"
  shows "try_speak env m r = (Tts_init # replicate (nat r) (Say m) @ [RunAndWait], Some e)"
proof -
  have "say_loop env m 0 (nat r) = (replicate (nat r) (Say m), None)"
    using assms(2) by (intro say_loop_ok) simp
  with assms(1,3) show ?thesis by (simp add: try_speak_def)
qed

lemma try_speak_calls:
  "\<exists>i\<le>nat r. fst (try_speak env m r) = Tts_init # replicate i (Say m)
        \<or> fst (try_speak env m r) = Tts_init # replicate i (Say m) @ [RunAndWait]"
proof (cases "init_fails env")
  case (Some e)
  then have "0 \<le> nat r \<and> fst (try_speak env m r) = Tts_init # replicate 0 (Say m)"
    by (simp add: try_speak_def)
  then show ?thesis by blast
next
  case None
  from say_loop_says [of "nat r" env m 0] obtain i where
    i: "i \<le> nat r" "fst (say_loop env m 0 (nat r)) = replicate i (Say m)"
    by blast
  with None have "fst (try_speak env m r) = Tts_init # replicate i (Say m)
        \<or> fst (try_speak env m r) = Tts_init # replicate i (Say m) @ [RunAndWait]"
    by (cases "say_loop env m 0 (nat r)") (auto simp: try_speak_def split: option.splits)
  with i(1) show ?thesis by blast
qed

lemma speak_calls:
  "fst (speak_message_then_alarm env clock m wave d r) =
     fst (try_speak env m r)
     @ (case snd (try_speak env m r) of None \<Rightarrow> [] | Some e \<Rightarrow> [Print (Warn_tts e)])
     @ fst (play_wave wave d clock)"
  by (simp add: speak_message_then_alarm_def Let_def split: prod.splits)

lemma speak_returned:
  "snd (speak_message_then_alarm env clock m wave d r) = snd (play_wave wave d clock)"
  by (simp add: speak_message_then_alarm_def Let_def split: prod.splits)

lemma play_loop_None: "play_loop w None clock = ([Play w], True)"
  by simp

lemma play_loop_Some:
  "e \<noteq> 0 \<Longrightarrow>
   play_loop w (Some e) ts =
     (concat (replicate (length (takeWhile (\<lambda>t. t < e) ts)) [Play w, Sleep 1]) @ [Play w],
      list_ex (\<lambda>t. e \<le> t) ts)"
  by (induction ts) (auto simp: not_le)

lemma play_wave_None: "play_wave None d clock = ([Play_wave None d], True)"
  by (simp add: play_wave_def)

lemma play_wave_once: "d \<le> 0 \<Longrightarrow> play_wave (Some w) d clock = ([Play_wave (Some w) d, Play w], True)"
  by (simp add: play_wave_def)

lemma play_wave_loop:
  "0 < d \<Longrightarrow> t0 + d \<noteq> 0 \<Longrightarrow>
   play_wave (Some w) d (t0 # ts) =
     (Play_wave (Some w) d
        # concat (replicate (length (takeWhile (\<lambda>t. t < t0 + d) ts)) [Play w, Sleep 1]) @ [Play w],
      list_ex (\<lambda>t. t0 + d \<le> t) ts)"
  by (simp add: play_wave_def play_loop_Some)

lemma filter_play_concat:
  "filter is_play (concat (replicate n [Play w, Sleep 1])) = replicate n (Play w)"
  by (induction n) simp_all

lemma play_loop_first: "\<exists>cs. fst (play_loop w e clock) = Play w # cs \<and> \<not> list_ex is_play_wave cs"
proof (induction w e clock rule: play_loop.induct)
  case (3 w e t clock)
  then show ?case by (cases "play_loop w (Some e) clock") auto
qed simp_all

lemma play_wave_first:
  "\<exists>cs. fst (play_wave wave d clock) = Play_wave wave d # cs \<and> \<not> list_ex is_play_wave cs"
proof (cases wave)
  case None
  then show ?thesis by (simp add: play_wave_def)
next
  case (Some w)
  show ?thesis
  proof (cases "0 < d")
    case False
    with Some show ?thesis by (simp add: play_wave_def)
  next
    case True
    show ?thesis
    proof (cases clock)
      case Nil
      with Some True show ?thesis by (simp add: play_wave_def)
    next
      case (Cons t0 ts)
      from play_loop_first [of w "Some (t0 + d)" ts] obtain cs where
        "fst (play_loop w (Some (t0 + d)) ts) = Play w # cs" "\<not> list_ex is_play_wave cs"
        by blast
      with Some True Cons show ?thesis
        by (cases "play_loop w (Some (t0 + d)) ts") (simp add: play_wave_def)
    qed
  qed
qed

text \<open>
  Claim C6. Whatever the calls of the speech engine do, \<open>speak_message_then_alarm\<close>
  calls \<open>play_wave\<close> with its sound and duration after the speech stage, and it
  returns exactly when \<open>play_wave\<close> returns. An exception raised by the start of the
  engine, by any \<open>say\<close> or by \<open>runAndWait\<close> ends the speech stage there, is printed
  as a warning, and the call of \<open>play_wave\<close> follows.
\<close>

theorem speech_failure_caught:
  "(\<exists>cs. fst (speak_message_then_alarm env clock m wave d r) =
            fst (try_speak env m r)
            @ (case snd (try_speak env m r) of None \<Rightarrow> [] | Some e \<Rightarrow> [Print (Warn_tts e)])
            @ Play_wave wave d # cs
          \<and> fst (play_wave wave d clock) = Play_wave wave d # cs)
   \<and> snd (speak_message_then_alarm env clock m wave d r) = snd (play_wave wave d clock)
   \<and> (init_fails env = Some e \<longrightarrow>
        fst (speak_message_then_alarm env clock m wave d r) =
          [Tts_init, Print (Warn_tts e)] @ fst (play_wave wave d clock))
   \<and> (init_fails env = None \<and> i < nat r \<and> (\<forall>j<i. say_result env j = None)
        \<and> say_result env i = Some e \<longrightarrow>
        fst (speak_message_then_alarm env clock m wave d r) =
          Tts_init # replicate (Suc i) (Say m) @ [Print (Warn_tts e)] @ fst (play_wave wave d clock))
   \<and> (init_fails env = None \<and> (\<forall>j<nat r. say_result env j = None) \<and> run_fails env = Some e \<longrightarrow>
        fst (speak_message_then_alarm env clock m wave d r) =
          Tts_init # replicate (nat r) (Say m) @ [RunAndWait, Print (Warn_tts e)]
          @ fst (play_wave wave d clock))"
proof -
  from play_wave_first [of wave d clock] obtain cs where
    cs: "fst (play_wave wave d clock) = Play_wave wave d # cs"
    by blast
  have a: "\<exists>cs. fst (speak_message_then_alarm env clock m wave d r) =
            fst (try_speak env m r)
            @ (case snd (try_speak env m r) of None \<Rightarrow> [] | Some e \<Rightarrow> [Print (Warn_tts e)])
            @ Play_wave wave d # cs
          \<and> fst (play_wave wave d clock) = Play_wave wave d # cs"
    using cs by (simp add: speak_calls)
  have b: "init_fails env = Some e \<longrightarrow>
        fst (speak_message_then_alarm env clock m wave d r) =
          [Tts_init, Print (Warn_tts e)] @ fst (play_wave wave d clock)"
    by (simp add: speak_calls try_speak_init_fails)
  have c: "init_fails env = None \<and> i < nat r \<and> (\<forall>j<i. say_result env j = None)
        \<and> say_result env i = Some e \<longrightarrow>
        fst (speak_message_then_alarm env clock m wave d r) =
          Tts_init # replicate (Suc i) (Say m) @ [Print (Warn_tts e)] @ fst (play_wave wave d clock)"
  proof
    assume h: "init_fails env = None \<and> i < nat r \<and> (\<forall>j<i. say_result env j = None)
        \<and> say_result env i = Some e"
    then have "try_speak env m r = (Tts_init # replicate (Suc i) (Say m), Some e)"
      by (intro try_speak_say_fails) simp_all
    then show "fst (speak_message_then_alarm env clock m wave d r) =
          Tts_init # replicate (Suc i) (Say m) @ [Print (Warn_tts e)] @ fst (play_wave wave d clock)"
      by (simp add: speak_calls)
  qed
  have d: "init_fails env = None \<and> (\<forall>j<nat r. say_result env j = None) \<and> run_fails env = Some e \<longrightarrow>
        fst (speak_message_then_alarm env clock m wave d r) =
          Tts_init # replicate (nat r) (Say m) @ [RunAndWait, Print (Warn_tts e)]
          @ fst (play_wave wave d clock)"
  proof
    assume h: "init_fails env = None \<and> (\<forall>j<nat r. say_result env j = None) \<and> run_fails env = Some e"
    then have "try_speak env m r = (Tts_init # replicate (nat r) (Say m) @ [RunAndWait], Some e)"
      by (intro try_speak_run_fails) simp_all
    then show "fst (speak_message_then_alarm env clock m wave d r) =
          Tts_init # replicate (nat r) (Say m) @ [RunAndWait, Print (Warn_tts e)]
          @ fst (play_wave wave d clock)"
      by (simp add: speak_calls)
  qed
  show ?thesis
    by (intro conjI a b c d speak_returned)
qed

theorem speech_failure_caught_witness:
  "init_fails \<lparr>init_fails = Some ''no driver'', say_fails = [], run_fails = None\<rparr> = Some ''no driver''
   \<and> speak_message_then_alarm \<lparr>init_fails = Some ''no driver'', say_fails = [], run_fails = None\<rparr>
        [] VOICE_MESSAGE (Some (WaveObject [1, 2, 3])) 0 2 =
       ([Tts_init, Print (Warn_tts ''no driver''), Play_wave (Some (WaveObject [1, 2, 3])) 0,
         Play (WaveObject [1, 2, 3])], True)"
proof -
  have h: "init_fails \<lparr>init_fails = Some ''no driver'', say_fails = [], run_fails = None\<rparr>
      = Some ''no driver''"
    by simp
  have p: "play_wave (Some (WaveObject [1, 2, 3])) 0 [] =
      ([Play_wave (Some (WaveObject [1, 2, 3])) 0, Play (WaveObject [1, 2, 3])], True)"
    by (simp add: play_wave_once)
  note t = speech_failure_caught [where env = "\<lparr>init_fails = Some ''no driver'', say_fails = [], run_fails = None\<rparr>"
      and e = "''no driver''" and clock = "[]" and m = VOICE_MESSAGE
      and wave = "Some (WaveObject [1, 2, 3])" and d = 0 and r = 2 and i = 0]
  from t have s: "snd (speak_message_then_alarm \<lparr>init_fails = Some ''no driver'', say_fails = [], run_fails = None\<rparr>
        [] VOICE_MESSAGE (Some (WaveObject [1, 2, 3])) 0 2) = snd (play_wave (Some (WaveObject [1, 2, 3])) 0 [])"
    by (elim conjE)
  from t have "init_fails \<lparr>init_fails = Some ''no driver'', say_fails = [], run_fails = None\<rparr>
        = Some ''no driver'' \<longrightarrow>
      fst (speak_message_then_alarm \<lparr>init_fails = Some ''no driver'', say_fails = [], run_fails = None\<rparr>
        [] VOICE_MESSAGE (Some (WaveObject [1, 2, 3])) 0 2) =
      [Tts_init, Print (Warn_tts ''no driver'')] @ fst (play_wave (Some (WaveObject [1, 2, 3])) 0 [])"
    by (elim conjE)
  from this h have f: "fst (speak_message_then_alarm \<lparr>init_fails = Some ''no driver'', say_fails = [], run_fails = None\<rparr>
        [] VOICE_MESSAGE (Some (WaveObject [1, 2, 3])) 0 2) =
      [Tts_init, Print (Warn_tts ''no driver'')] @ fst (play_wave (Some (WaveObject [1, 2, 3])) 0 [])"
    by (rule mp)
  from f s p h show ?thesis
    by (simp add: prod_eq_iff)
qed



lemma try_speak_no_play:
  "\<not> list_ex is_play (fst (try_speak env m r)) \<and> \<not> list_ex is_play_wave (fst (try_speak env m r))"
  using try_speak_calls [of r env m] by (auto simp: list_ex_iff)





lemma body_trace: "trace (main_loop_body w fr s) = trace s @ new_effects w fr s"
  by (simp add: new_effects_def main_loop_body_def Let_def emit_simps)

lemma new_effects_thread_start:
  "ef \<in> set (new_effects w fr s) \<Longrightarrow> is_thread_start ef \<Longrightarrow>
   ef = Thread_start VOICE_MESSAGE w HUMAN_ALERT_DURATION 2"
  by (auto simp: new_effects_cases split: if_splits)

lemma run_passes_thread_start:
  "ef \<in> set (trace (run_passes w frs s)) \<Longrightarrow> is_thread_start ef \<Longrightarrow>
   ef \<in> set (trace s) \<or> ef = Thread_start VOICE_MESSAGE w HUMAN_ALERT_DURATION 2"
proof (induction frs arbitrary: s)
  case Nil
  then show ?case by simp
next
  case (Cons fr frs)
  from Cons.IH [of "main_loop_body w fr s"] Cons.prems
  have "ef \<in> set (trace (main_loop_body w fr s)) \<or> ef = Thread_start VOICE_MESSAGE w HUMAN_ALERT_DURATION 2"
    by simp
  then show ?case
    using new_effects_thread_start [of ef w fr s] Cons.prems(2)
    by (auto simp: body_trace)
qed

lemma main_loop_thread_start:
  "ef \<in> set (trace (main_loop w frs s)) \<Longrightarrow> is_thread_start ef \<Longrightarrow>
   ef \<in> set (trace s) \<or> ef = Thread_start VOICE_MESSAGE w HUMAN_ALERT_DURATION 2"
  using run_passes_thread_start [of ef w "processed frs" s]
  by (auto simp: main_loop_run_passes emit_simps)

lemma main_thread_start:
  assumes "ef \<in> set (trace (main wd))" "is_thread_start ef"
  shows "ef = Thread_start VOICE_MESSAGE (fst (load_wave (w_sounds wd) ALERT_SOUND)) HUMAN_ALERT_DURATION 2"
proof (cases "w_cascade_ok wd \<and> w_camera_ok wd")
  case False
  with assms show ?thesis
    by (auto simp: main_def Let_def emit_simps init_state_def split: prod.splits if_splits)
next
  case True
  let ?w = "fst (load_wave (w_sounds wd) ALERT_SOUND)"
  let ?s = "emit (Stdout Started)
     ((init_state (ensure_report_exists REPORT_CSV (w_files wd)))
        \<lparr>trace := map Stdout (snd (load_wave (w_sounds wd) ALERT_SOUND))\<rparr>)"
  have m: "main wd = main_loop ?w (w_frames wd) ?s"
    using True by (simp add: main_def Let_def split: prod.splits)
  have "ef \<notin> set (trace ?s)"
    using assms(2) by (auto simp: emit_simps)
  with main_loop_thread_start [of ef ?w "w_frames wd" ?s] assms show ?thesis
    unfolding m by blast
qed

lemma load_wave_missing:
  "sfs p = None \<or> (\<exists>e. sfs p = Some (Inl e)) \<Longrightarrow>
   fst (load_wave sfs p) = None \<and> length (snd (load_wave sfs p)) = 1"
  by (auto simp: load_wave_def)




subsection \<open>The alarm\<close>

lemma play_wave_plays:
  "d \<le> 0 \<or> clock \<noteq> [] \<Longrightarrow> list_ex is_play (fst (play_wave (Some w) d clock))"
proof (cases "0 < d")
  case False
  then show ?thesis by (simp add: play_wave_def)
next
  case True
  assume "d \<le> 0 \<or> clock \<noteq> []"
  with True obtain t0 ts where c: "clock = t0 # ts"
    by (cases clock) auto
  from play_loop_first [of w "Some (t0 + d)" ts] obtain cs where
    "fst (play_loop w (Some (t0 + d)) ts) = Play w # cs"
    by blast
  with True c show ?thesis
    by (cases "play_loop w (Some (t0 + d)) ts") (simp add: play_wave_def)
qed

text \<open>
  Claim C8. With a loaded sound, \<open>play_wave\<close> plays the sound once and returns when
  the duration is zero or negative. With a positive duration, started at a clock reading
  \<open>t0\<close> that is not negative (\<open>time.time()\<close> counts the seconds since the epoch),
  it plays the sound, reads the clock, and sleeps a second and plays again as long as the
  reading is below \<open>t0\<close> plus the duration: one play more than there are readings
  before the first one at or past that end, and it returns exactly when such a reading
  comes. In every case with a loaded sound in which the clock can be read the sound is
  played at least once.
\<close>

theorem alarm_plays_until_elapsed:
  "(d \<le> 0 \<longrightarrow> play_wave (Some w) d clock = ([Play_wave (Some w) d, Play w], True))
   \<and> (0 < d \<and> 0 \<le> t0 \<longrightarrow>
        play_wave (Some w) d (t0 # ts) =
          (Play_wave (Some w) d
             # concat (replicate (length (takeWhile (\<lambda>t. t < t0 + d) ts)) [Play w, Sleep 1])
             @ [Play w],
           list_ex (\<lambda>t. t0 + d \<le> t) ts)
        \<and> length (filter is_play (fst (play_wave (Some w) d (t0 # ts)))) =
            Suc (length (takeWhile (\<lambda>t. t < t0 + d) ts)))
   \<and> (d \<le> 0 \<or> clock \<noteq> [] \<longrightarrow> list_ex is_play (fst (play_wave (Some w) d clock)))"
proof -
  have a: "d \<le> 0 \<longrightarrow> play_wave (Some w) d clock = ([Play_wave (Some w) d, Play w], True)"
    by (simp add: play_wave_once)
  have b: "0 < d \<and> 0 \<le> t0 \<longrightarrow>
        play_wave (Some w) d (t0 # ts) =
          (Play_wave (Some w) d
             # concat (replicate (length (takeWhile (\<lambda>t. t < t0 + d) ts)) [Play w, Sleep 1])
             @ [Play w],
           list_ex (\<lambda>t. t0 + d \<le> t) ts)
        \<and> length (filter is_play (fst (play_wave (Some w) d (t0 # ts)))) =
            Suc (length (takeWhile (\<lambda>t. t < t0 + d) ts))"
  proof
    assume h: "0 < d \<and> 0 \<le> t0"
    then have ne: "t0 + d \<noteq> 0" by simp
    from h have pos: "0 < d" by simp
    note p = play_wave_loop [OF pos ne, of w ts]
    show "play_wave (Some w) d (t0 # ts) =
          (Play_wave (Some w) d
             # concat (replicate (length (takeWhile (\<lambda>t. t < t0 + d) ts)) [Play w, Sleep 1])
             @ [Play w],
           list_ex (\<lambda>t. t0 + d \<le> t) ts)
        \<and> length (filter is_play (fst (play_wave (Some w) d (t0 # ts)))) =
            Suc (length (takeWhile (\<lambda>t. t < t0 + d) ts))"
      by (simp add: p filter_play_concat)
  qed
  have c: "d \<le> 0 \<or> clock \<noteq> [] \<longrightarrow> list_ex is_play (fst (play_wave (Some w) d clock))"
    using play_wave_plays [of d clock w] by blast
  show ?thesis
    by (intro conjI a b c)
qed

theorem alarm_plays_until_elapsed_witness:
  "(0::real) < 3 \<and> (0::real) \<le> 100
   \<and> play_wave (Some (WaveObject [1, 2, 3])) 3 [100, 101, 102, 103, 104] =
       ([Play_wave (Some (WaveObject [1, 2, 3])) 3,
         Play (WaveObject [1, 2, 3]), Sleep 1,
         Play (WaveObject [1, 2, 3]), Sleep 1,
         Play (WaveObject [1, 2, 3])], True)
   \<and> play_wave (Some (WaveObject [1, 2, 3])) (- 1) [] =
       ([Play_wave (Some (WaveObject [1, 2, 3])) (- 1), Play (WaveObject [1, 2, 3])], True)"
proof -
  have h: "(0::real) < 3 \<and> (0::real) \<le> 100" by simp
  note t = alarm_plays_until_elapsed [where d = 3 and ?t0.0 = 100 and ts = "[101, 102, 103, 104]"
      and w = "WaveObject [1, 2, 3]" and clock = "[]"]
  from t have "0 < (3::real) \<and> 0 \<le> (100::real) \<longrightarrow>
        play_wave (Some (WaveObject [1, 2, 3])) 3 (100 # [101, 102, 103, 104]) =
          (Play_wave (Some (WaveObject [1, 2, 3])) 3
             # concat (replicate (length (takeWhile (\<lambda>t::real. t < 100 + 3) [101, 102, 103, 104]))
                 [Play (WaveObject [1, 2, 3]), Sleep 1])
             @ [Play (WaveObject [1, 2, 3])],
           list_ex (\<lambda>t::real. 100 + 3 \<le> t) [101, 102, 103, 104])
        \<and> length (filter is_play (fst (play_wave (Some (WaveObject [1, 2, 3])) 3 (100 # [101, 102, 103, 104])))) =
            Suc (length (takeWhile (\<lambda>t::real. t < 100 + 3) [101, 102, 103, 104]))"
    by (elim conjE)
  from this h have "play_wave (Some (WaveObject [1, 2, 3])) 3 (100 # [101, 102, 103, 104]) =
          (Play_wave (Some (WaveObject [1, 2, 3])) 3
             # concat (replicate (length (takeWhile (\<lambda>t::real. t < 100 + 3) [101, 102, 103, 104]))
                 [Play (WaveObject [1, 2, 3]), Sleep 1])
             @ [Play (WaveObject [1, 2, 3])],
           list_ex (\<lambda>t::real. 100 + 3 \<le> t) [101, 102, 103, 104])"
    by blast
  then have x: "play_wave (Some (WaveObject [1, 2, 3])) 3 [100, 101, 102, 103, 104] =
       ([Play_wave (Some (WaveObject [1, 2, 3])) 3,
         Play (WaveObject [1, 2, 3]), Sleep 1,
         Play (WaveObject [1, 2, 3]), Sleep 1,
         Play (WaveObject [1, 2, 3])], True)"
    by (simp add: numeral_2_eq_2)
  have y: "play_wave (Some (WaveObject [1, 2, 3])) (- 1) [] =
       ([Play_wave (Some (WaveObject [1, 2, 3])) (- 1), Play (WaveObject [1, 2, 3])], True)"
    by (simp add: play_wave_once)
  from x y show ?thesis by simp
qed

text \<open>
  Claim C10. \<open>load_wave\<close> returns \<open>None\<close>, with one warning, for a sound file that
  is missing or that cannot be loaded. With \<open>None\<close> as its sound \<open>play_wave\<close>
  returns at once for every duration and every clock, and a run of
  \<open>speak_message_then_alarm\<close> plays nothing and returns, whatever the speech engine
  does. When the configured sound is missing or cannot be loaded, every thread that
  \<open>main\<close> starts is given \<open>None\<close> as its sound.
\<close>

theorem missing_sound_no_alarm:
  "(sfs p = None \<or> (\<exists>e. sfs p = Some (Inl e)) \<longrightarrow>
      fst (load_wave sfs p) = None \<and> length (snd (load_wave sfs p)) = 1)
   \<and> play_wave None d clock = ([Play_wave None d], True)
   \<and> filter is_play (fst (speak_message_then_alarm env clock m None d r)) = []
   \<and> snd (speak_message_then_alarm env clock m None d r) = True
   \<and> (w_sounds wd ALERT_SOUND = None \<or> (\<exists>e. w_sounds wd ALERT_SOUND = Some (Inl e)) \<longrightarrow>
        (\<forall>ef\<in>set (trace (main wd)). is_thread_start ef \<longrightarrow>
           ef = Thread_start VOICE_MESSAGE None HUMAN_ALERT_DURATION 2))"
proof -
  have a: "sfs p = None \<or> (\<exists>e. sfs p = Some (Inl e)) \<longrightarrow>
      fst (load_wave sfs p) = None \<and> length (snd (load_wave sfs p)) = 1"
    using load_wave_missing [of sfs p] by blast
  have b: "filter is_play (fst (speak_message_then_alarm env clock m None d r)) = []"
    using try_speak_no_play [of env m r]
    by (auto simp: speak_calls play_wave_None list_ex_iff filter_empty_conv split: option.splits)
  have c: "snd (speak_message_then_alarm env clock m None d r) = True"
    by (simp add: speak_returned play_wave_None)
  have e: "w_sounds wd ALERT_SOUND = None \<or> (\<exists>e. w_sounds wd ALERT_SOUND = Some (Inl e)) \<longrightarrow>
        (\<forall>ef\<in>set (trace (main wd)). is_thread_start ef \<longrightarrow>
           ef = Thread_start VOICE_MESSAGE None HUMAN_ALERT_DURATION 2)"
  proof (intro impI ballI)
    fix ef
    assume h: "w_sounds wd ALERT_SOUND = None \<or> (\<exists>e. w_sounds wd ALERT_SOUND = Some (Inl e))"
      and m: "ef \<in> set (trace (main wd))" and t: "is_thread_start ef"
    from load_wave_missing [of "w_sounds wd" ALERT_SOUND] h have "fst (load_wave (w_sounds wd) ALERT_SOUND) = None"
      by simp
    with main_thread_start [OF m t]
    show "ef = Thread_start VOICE_MESSAGE None HUMAN_ALERT_DURATION 2"
      by simp
  qed
  show ?thesis
    by (intro conjI a b c e play_wave_None)
qed

theorem missing_sound_no_alarm_witness:
  "w_sounds world_A ALERT_SOUND = None
   \<and> filter is_thread_start (trace (main world_A)) =
       [Thread_start VOICE_MESSAGE None HUMAN_ALERT_DURATION 2]
   \<and> speak_message_then_alarm \<lparr>init_fails = None, say_fails = [], run_fails = None\<rparr>
        [] VOICE_MESSAGE None HUMAN_ALERT_DURATION 2 =
       ([Tts_init, Say VOICE_MESSAGE, Say VOICE_MESSAGE, RunAndWait,
         Play_wave None HUMAN_ALERT_DURATION], True)"
proof -
  have h: "w_sounds world_A ALERT_SOUND = None"
    by (simp add: world_A_def)
  have tr: "filter is_thread_start (trace (main world_A)) =
       [Thread_start VOICE_MESSAGE None HUMAN_ALERT_DURATION 2]"
    by (simp add: main_def world_A_def scenario_A_def load_wave_def Let_def main_loop_run_passes
          init_state_def emit_simps body_trace new_effects_cases body_prev_state
          body_last_alert_time starts_episode_iff state_of_def ALERT_COOLDOWN_def)
  have sp: "speak_message_then_alarm \<lparr>init_fails = None, say_fails = [], run_fails = None\<rparr>
        [] VOICE_MESSAGE None HUMAN_ALERT_DURATION 2 =
       ([Tts_init, Say VOICE_MESSAGE, Say VOICE_MESSAGE, RunAndWait,
         Play_wave None HUMAN_ALERT_DURATION], True)"
    by (simp add: speak_message_then_alarm_def try_speak_def say_result_def play_wave_def
        numeral_2_eq_2)
  from missing_sound_no_alarm [where wd = world_A and sfs = "w_sounds world_A" and p = ALERT_SOUND] h tr sp
  show ?thesis by simp
qed

end
